theory Spec2Isabelle
  imports Complex_Main
begin

section \<open>Utilities.h: string functions\<close>

subsection \<open>C strings and character classes\<close>

text \<open>
  \<open>std::isdigit\<close> in the "C" locale: the ten decimal digits.
\<close>

definition isdigit :: "char \<Rightarrow> bool" where
  "isdigit c = (c \<in> set ''0123456789'')"

text \<open>
  A C string read from an address is the run of bytes up to the first NUL. \<open>strcmp\<close>
  compares two such runs; only "equal to 0" is used by the source.
\<close>

definition cstr :: "char list \<Rightarrow> char list" where
  "cstr bytes = takeWhile (\<lambda>b. b \<noteq> CHR 0x00) bytes"

definition strcmp_is_0 :: "char list \<Rightarrow> char list \<Rightarrow> bool" where
  "strcmp_is_0 a b = (cstr a = cstr b)"

text \<open>
  The lambdas of \<open>isNumber\<close> and \<open>isEmpty\<close> call \<open>strcmp(&c, ".")\<close> on the address of
  their by-value parameter \<open>c\<close>, which is a single \<open>char\<close> and not a terminated string:
  \<open>strcmp\<close> goes on reading the bytes that follow \<open>c\<close> in memory. The language does not
  say what they are, so they are a parameter of the model: \<open>after i\<close> is the byte sequence
  that follows \<open>c\<close> at the call for position \<open>i\<close> of the string (the empty sequence
  stands for memory that ends the string at once, as a NUL byte does).
\<close>

definition numeric_char :: "char \<Rightarrow> char list \<Rightarrow> bool" where
  "numeric_char c aft =
     (isdigit c \<or> strcmp_is_0 (c # aft) ''.'' \<or> strcmp_is_0 (c # aft) '' '')"

definition blank_char :: "char \<Rightarrow> char list \<Rightarrow> bool" where
  "blank_char c aft = strcmp_is_0 (c # aft) '' ''"

text \<open>
  \<open>std::find_if(s.begin(), s.end(), p) == s.end()\<close>: no position satisfies \<open>p\<close>.
  \<open>List.find\<close> returns the first element that does, as \<open>find_if\<close> returns the first
  iterator.
\<close>

definition isNumber :: "(nat \<Rightarrow> char list) \<Rightarrow> string \<Rightarrow> bool" where
  "isNumber after s =
     (s \<noteq> [] \<and>
      List.find (\<lambda>(i, c). \<not> numeric_char c (after i)) (enumerate 0 s) = None)"

definition isEmpty :: "(nat \<Rightarrow> char list) \<Rightarrow> string \<Rightarrow> bool" where
  "isEmpty after s =
     (s \<noteq> [] \<and>
      List.find (\<lambda>(i, c). \<not> blank_char c (after i)) (enumerate 0 s) = None)"

subsection \<open>split\<close>

text \<open>
  \<open>std::getline(ss, item, delim)\<close> on a stream whose unread content is the first
  argument. Characters are extracted up to the delimiter, which is extracted and dropped,
  or up to the end of the content. When nothing at all is extracted the call fails
  (\<open>failbit\<close>), which is \<open>None\<close>; this is also what happens once a previous call has
  reached the end. Otherwise the item and the content left unread are returned.
\<close>

fun extract_item :: "string \<Rightarrow> char \<Rightarrow> string \<times> string" where
  "extract_item [] delim = ([], [])"
| "extract_item (c # cs) delim =
     (if c = delim then ([], cs)
      else (case extract_item cs delim of (item, rest) \<Rightarrow> (c # item, rest)))"

definition getline :: "string \<Rightarrow> char \<Rightarrow> (string \<times> string) option" where
  "getline ss delim = (if ss = [] then None else Some (extract_item ss delim))"

text \<open>The \<open>while\<close> loop of \<open>split\<close>, with \<open>elems\<close> as accumulator.\<close>

function split_loop :: "string \<Rightarrow> char \<Rightarrow> string list \<Rightarrow> string list" where
  "split_loop ss delim elems =
     (case getline ss delim of
        None \<Rightarrow> elems
      | Some (item, rest) \<Rightarrow> split_loop rest delim (elems @ [item]))"
  by pat_completeness auto
termination
proof (relation "measure (\<lambda>(ss, delim, elems). length ss)")
  show "wf (measure (\<lambda>(ss, delim, elems). length ss))" by simp
next
  fix ss :: string and delim :: char and elems :: "string list"
    and x2 :: "string \<times> string" and item rest :: string
  assume g: "getline ss delim = Some x2" and x: "(item, rest) = x2"
  from g have ne: "ss \<noteq> []" and e: "extract_item ss delim = x2"
    by (auto simp: getline_def split: if_splits)
  from ne obtain c cs where s: "ss = c # cs" by (cases ss) auto
  have "length rest \<le> length cs"
  proof (cases "c = delim")
    case True
    with e x s show ?thesis by auto
  next
    case False
    with e x s have "rest = snd (extract_item cs delim)"
      by (auto split: prod.splits)
    moreover have "length (snd (extract_item t delim)) \<le> length t" for t
      by (induction t) (auto split: prod.splits)
    ultimately show ?thesis by simp
  qed
  with s show "((rest, delim, elems @ [item]), (ss, delim, elems))
      \<in> measure (\<lambda>(ss, delim, elems). length ss)"
    by simp
qed

definition split :: "string \<Rightarrow> char \<Rightarrow> string list" where
  "split s delim = split_loop s delim []"

text \<open>Joining elements with the delimiter between consecutive ones.\<close>

fun join :: "char \<Rightarrow> string list \<Rightarrow> string" where
  "join d [] = []"
| "join d [x] = x"
| "join d (x # y # ys) = x @ d # join d (y # ys)"

section \<open>Analyse.cxx: the analysis program\<close>

subsection \<open>Numbers as text\<close>

text \<open>
  \<open>std::to_string\<close> on integers and the \<open>%06u\<close> / \<open>%06d\<close> conversions of \<open>printf\<close>:
  decimal digits, most significant first, padded on the left with zeros to six places.
\<close>

definition digit_char :: "nat \<Rightarrow> char" where
  "digit_char k = ''0123456789'' ! (k mod 10)"

fun nat_digits :: "nat \<Rightarrow> string" where
  "nat_digits n =
     (if n < 10 then [digit_char n] else nat_digits (n div 10) @ [digit_char (n mod 10)])"

declare nat_digits.simps [simp del]

definition to_string :: "int \<Rightarrow> string" where
  "to_string i = (if i < 0 then CHR ''-'' # nat_digits (nat (- i)) else nat_digits (nat i))"

definition pad6 :: "nat \<Rightarrow> string" where
  "pad6 n = replicate (6 - length (nat_digits n)) (CHR ''0'') @ nat_digits n"

subsection \<open>Project identity and file names\<close>

text \<open>
  \<open>wavenet::GeneratorMode\<close>. Its declaration is in \<open>Wavenet/Generators.h\<close>; the four
  enumerators are the ones \<open>main\<close> tests, and \<open>Unrecognised\<close> stands for any other value
  of the enumeration type, which the \<open>default\<close> branch of the \<open>switch\<close> catches.
\<close>

datatype GeneratorMode = File | Uniform | Needle | Gaussian | Unrecognised

text \<open>The \<open>switch\<close> over the mode and the suffix: \<open>None\<close> is the \<open>return 0\<close> of the default.\<close>

definition project_name :: "GeneratorMode \<Rightarrow> int \<Rightarrow> string option" where
  "project_name mode Nfilter =
     (case (case mode of
              File \<Rightarrow> Some (''Run.'' @ ''File'')
            | Uniform \<Rightarrow> Some (''Run.'' @ ''Uniform'')
            | Needle \<Rightarrow> Some (''Run.'' @ ''Needle'')
            | Gaussian \<Rightarrow> Some (''Run.'' @ ''Gaussian'')
            | Unrecognised \<Rightarrow> None) of
        None \<Rightarrow> None
      | Some project \<Rightarrow> Some (project @ ''.N'' @ to_string Nfilter))"

definition outdir_of :: "string \<Rightarrow> string" where
  "outdir_of project = ''./output/'' @ project @ ''/''"

definition pattern_of :: "string \<Rightarrow> string" where
  "pattern_of project = outdir_of project @ ''snapshots/'' @ project @ ''.%06u.snap''"

text \<open>
  \<open>std::regex_replace(project, std::regex(".N(\\d+)"), "")\<close>. The pattern is one character
  that is not a line terminator (the dot is not escaped), the letter N, and one or more
  digits, taken greedily. Every match, found from left to right, is replaced by the empty
  string and the text between matches is copied.
\<close>

definition regex_dot :: "char \<Rightarrow> bool" where
  "regex_dot c = (c \<noteq> CHR 0x0A \<and> c \<noteq> CHR 0x0D)"

function regex_replace_N :: "string \<Rightarrow> string" where
  "regex_replace_N (c # n # d # rest) =
     (if regex_dot c \<and> n = CHR ''N'' \<and> isdigit d
      then regex_replace_N (dropWhile isdigit rest)
      else c # regex_replace_N (n # d # rest))"
| "regex_replace_N [c, n] = [c, n]"
| "regex_replace_N [c] = [c]"
| "regex_replace_N [] = []"
  by pat_completeness auto
termination
proof (relation "measure length")
  show "wf (measure length)" by simp
next
  fix c n d :: char and rest :: string
  have "length (dropWhile isdigit rest) \<le> length rest"
    by (rule length_dropWhile_le)
  then show "(dropWhile isdigit rest, c # n # d # rest) \<in> measure length"
    by simp
next
  fix c n d :: char and rest :: string
  show "(n # d # rest, c # n # d # rest) \<in> measure length"
    by simp
qed

definition costMapName :: "string \<Rightarrow> string" where
  "costMapName project = ''output/costMap.'' @ regex_replace_N project @ ''.mat''"

definition costMapRegName :: "string \<Rightarrow> string" where
  "costMapRegName project = ''output/costMapReg.'' @ regex_replace_N project @ ''.mat''"

definition costMapSparseName :: "string \<Rightarrow> string" where
  "costMapSparseName project = ''output/costMapSparse.'' @ regex_replace_N project @ ''.mat''"

subsection \<open>The world the program acts on\<close>

text \<open>
  Cost values, filter coefficients and overlaps are \<open>double\<close>s in the source and reals
  here: the program only compares and stores them, and comparison of doubles that are
  not NaN is the comparison of the numbers they denote. A filter is an
  \<open>arma::Col<double>\<close>, the list of its rows. Matrices (\<open>arma::Mat<double>\<close>) are never
  inspected by \<open>main\<close> and stay an abstract type \<open>'m\<close>; the state of the
  \<open>wavenet::Wavenet\<close> engine is an abstract type \<open>'e\<close>.
\<close>

type_synonym filter = "real list"

datatype error =
    OutOfRange \<comment> \<open>\<open>std::out_of_range\<close> thrown by \<open>std::vector::at\<close>\<close>
  | LogicError \<comment> \<open>\<open>std::logic_error\<close> thrown by a bounds check of Armadillo\<close>
  | NullPointer \<comment> \<open>a call through a null \<open>generator\<close>\<close>

datatype outcome = Returned int | Threw error

datatype ('e, 'm) content = Snap 'e | Matrix 'm | Picture

datatype generator = HepMCGenerator | NeedleGenerator | UniformGenerator | GaussianGenerator

text \<open>What the program does to its collaborators, in the order it does it.\<close>

datatype event =
    EngineSave string \<comment> \<open>\<open>wavenet.save(path)\<close>\<close>
  | EngineLoad string \<comment> \<open>\<open>wavenet.load(path)\<close>\<close>
  | GeneratorNext \<comment> \<open>\<open>generator->next()\<close>\<close>
  | CanvasSaveAs string \<comment> \<open>\<open>TCanvas::SaveAs(path)\<close>\<close>
  | CostMapEval \<comment> \<open>\<open>wavenet.costMap(examples, 1.2, 300)\<close>\<close>
  | MatSave string \<comment> \<open>\<open>arma::Mat::save(path)\<close>\<close>
  | MatLoad string \<comment> \<open>\<open>arma::Mat::load(path)\<close>\<close>
  | SetFilter filter \<comment> \<open>\<open>wavenet.setFilter(filter)\<close>\<close>
  | BasisFunction nat nat nat nat \<comment> \<open>\<open>wavenet.basisFunction(sizex, sizey, i, j)\<close>\<close>
  | HistFill real \<comment> \<open>\<open>norms.Fill(value)\<close>\<close>

text \<open>
  The engine and the generators are not part of the program: their operations are
  parameters. \<open>op_load\<close> gives the engine after \<open>load(path)\<close> from the engine before and
  what the disk holds at the path; \<open>op_basisFunction\<close> and \<open>op_costMap\<close> return the
  engine too, since nothing in \<open>main\<close> says they leave it alone; \<open>op_overlap f1 f2\<close> is
  \<open>trace(f1 * f2.t())\<close>; \<open>op_next g i\<close> is the sample that draw number \<open>i\<close> of generator
  \<open>g\<close> returns; \<open>op_good\<close> is \<open>GeneratorBase::good\<close>.
\<close>

record ('e, 'm) ops =
  op_load :: "'e \<Rightarrow> ('e, 'm) content option \<Rightarrow> 'e"
  op_filterLog :: "'e \<Rightarrow> filter list"
  op_costLog :: "'e \<Rightarrow> real list"
  op_setFilter :: "'e \<Rightarrow> filter \<Rightarrow> 'e"
  op_basisFunction :: "'e \<Rightarrow> nat \<Rightarrow> nat \<Rightarrow> nat \<Rightarrow> nat \<Rightarrow> 'm \<times> 'e"
  op_costMap :: "'e \<Rightarrow> 'm list \<Rightarrow> ('m \<times> 'm \<times> 'm) \<times> 'e"
  op_overlap :: "'m \<Rightarrow> 'm \<Rightarrow> real"
  op_next :: "generator \<Rightarrow> nat \<Rightarrow> 'm"
  op_good :: "generator \<Rightarrow> bool"

text \<open>
  The variables of \<open>main\<close> that outlive a statement, the disk, and the trace of events.
  \<open>outcome\<close> is \<open>None\<close> while the program runs. A \<open>TGraph\<close> is the list of its points
  (for a cost graph, the cost log itself); an \<open>arma::Mat\<close> variable is \<open>None\<close> while it is
  empty, as a default-constructed matrix is and as a matrix is after a failed \<open>load\<close>.
  \<open>snap\<close> is the number of the \<open>Snapshot\<close> cursor.
\<close>

record ('e, 'm) state =
  outcome :: "outcome option"
  disk :: "string \<Rightarrow> ('e, 'm) content option"
  trace :: "event list"
  wavenet :: 'e
  snap :: nat
  costGraphs :: "real list list"
  filterGraphs :: "(real \<times> real) list list"
  bestBasis :: nat
  minCost :: real
  longestCost :: nat
  examples :: "'m list"
  costMap :: "'m option"
  costMapSparse :: "'m option"
  costMapReg :: "'m option"

definition emit :: "event list \<Rightarrow> ('e, 'm) state \<Rightarrow> ('e, 'm) state" where
  "emit es s = s\<lparr>trace := trace s @ es\<rparr>"

definition throw :: "error \<Rightarrow> ('e, 'm) state \<Rightarrow> ('e, 'm) state" where
  "throw e s = s\<lparr>outcome := Some (Threw e)\<rparr>"

definition return :: "int \<Rightarrow> ('e, 'm) state \<Rightarrow> ('e, 'm) state" where
  "return r s = s\<lparr>outcome := Some (Returned r)\<rparr>"

text \<open>A statement runs only while the program has neither returned nor thrown.\<close>

definition running :: "(('e, 'm) state \<Rightarrow> ('e, 'm) state) \<Rightarrow> ('e, 'm) state \<Rightarrow> ('e, 'm) state" where
  "running f s = (if outcome s = None then f s else s)"

text \<open>\<open>wavenet::fileExists\<close>: the file can be opened for reading.\<close>

definition fileExists :: "('e, 'm) state \<Rightarrow> string \<Rightarrow> bool" where
  "fileExists s filename = (disk s filename \<noteq> None)"

definition engine_save :: "string \<Rightarrow> ('e, 'm) state \<Rightarrow> ('e, 'm) state" where
  "engine_save path s =
     emit [EngineSave path] (s\<lparr>disk := (disk s)(path \<mapsto> Snap (wavenet s))\<rparr>)"

definition engine_load :: "('e, 'm) ops \<Rightarrow> string \<Rightarrow> ('e, 'm) state \<Rightarrow> ('e, 'm) state" where
  "engine_load ops path s =
     emit [EngineLoad path] (s\<lparr>wavenet := op_load ops (wavenet s) (disk s path)\<rparr>)"

definition canvas_SaveAs :: "string \<Rightarrow> ('e, 'm) state \<Rightarrow> ('e, 'm) state" where
  "canvas_SaveAs path s = emit [CanvasSaveAs path] (s\<lparr>disk := (disk s)(path \<mapsto> Picture)\<rparr>)"

definition mat_save :: "'m \<Rightarrow> string \<Rightarrow> ('e, 'm) state \<Rightarrow> ('e, 'm) state" where
  "mat_save m path s = emit [MatSave path] (s\<lparr>disk := (disk s)(path \<mapsto> Matrix m)\<rparr>)"

definition mat_load :: "('e, 'm) state \<Rightarrow> string \<Rightarrow> 'm option" where
  "mat_load s path = (case disk s path of Some (Matrix m) \<Rightarrow> Some m | _ \<Rightarrow> None)"

text \<open>\<open>std::vector::at\<close> and the assignment through it.\<close>

definition vector_at :: "'a list \<Rightarrow> nat \<Rightarrow> error + 'a" where
  "vector_at xs i = (if i < length xs then Inr (xs ! i) else Inl OutOfRange)"

definition vector_at_put :: "'a list \<Rightarrow> nat \<Rightarrow> 'a \<Rightarrow> error + 'a list" where
  "vector_at_put xs i v = (if i < length xs then Inr (xs[i := v]) else Inl OutOfRange)"

text \<open>
  Unsigned arithmetic: \<open>size_type\<close> is 64 bits wide and \<open>unsigned\<close> 32 bits wide, and
  both wrap around.
\<close>

definition size_minus :: "nat \<Rightarrow> nat \<Rightarrow> nat" where
  "size_minus a b = (a + 2 ^ 64 - b mod 2 ^ 64) mod 2 ^ 64"

definition to_unsigned :: "nat \<Rightarrow> nat" where
  "to_unsigned n = n mod 2 ^ 32"

definition unsigned_minus :: "nat \<Rightarrow> nat \<Rightarrow> nat" where
  "unsigned_minus a b = (a + 2 ^ 32 - b mod 2 ^ 32) mod 2 ^ 32"

text \<open>\<open>wavenet::sq\<close> at type \<open>unsigned\<close>.\<close>

definition sq :: "nat \<Rightarrow> nat" where
  "sq x = to_unsigned (x * x)"

text \<open>
  A counted loop \<open>for (unsigned i = i0; i < n; i++) body\<close> whose body changes neither
  \<open>i\<close> nor \<open>n\<close>.
\<close>

function for_loop :: "nat \<Rightarrow> nat \<Rightarrow> (nat \<Rightarrow> 's \<Rightarrow> 's) \<Rightarrow> 's \<Rightarrow> 's" where
  "for_loop i n body s = (if i < n then for_loop (i + 1) n body (body i s) else s)"
  by pat_completeness auto
termination
  by (relation "measure (\<lambda>(i, n, body, s). n - i)") auto

declare for_loop.simps [simp del]

subsection \<open>The snapshot cursor\<close>

text \<open>
  Modelled from the spec: the \<open>Snapshot\<close> class (\<open>Wavenet/Snapshot.h\<close> is not among the
  sources). Its pattern has one unsigned-integer slot, zero-padded to width six; the
  path of a cursor is the pattern with the number in the slot; the cursor is constructed
  at number 1; \<open>exists()\<close> holds iff the file at the path is present and readable;
  \<open>setNumber\<close> and the increment only change the number.
\<close>

fun snapshot_file :: "string \<Rightarrow> nat \<Rightarrow> string" where
  "snapshot_file (a # b # c # d # rest) n =
     (if [a, b, c, d] = ''%06u'' then pad6 n @ rest
      else a # snapshot_file (b # c # d # rest) n)"
| "snapshot_file s n = s"

definition snapshot_exists :: "string \<Rightarrow> ('e, 'm) state \<Rightarrow> bool" where
  "snapshot_exists pattern s = fileExists s (snapshot_file pattern (snap s))"

subsection \<open>Choosing the generator and drawing the examples\<close>

text \<open>
  Lines 81 to 93. \<open>generator\<close> is the value of the pointer when the chain of tests is
  reached; \<open>None\<close> is the null pointer. \<open>Exit1\<close> is the \<open>return 1\<close> of the File branch.
\<close>

datatype selection = Exit1 | Pointer "generator option"

definition select_generator ::
  "('e, 'm) ops \<Rightarrow> GeneratorMode \<Rightarrow> generator option \<Rightarrow> selection" where
  "select_generator ops mode generator =
     (if mode = File then
        (case generator of
           None \<Rightarrow> Exit1
         | Some g \<Rightarrow> if \<not> op_good ops g then Exit1 else Pointer generator)
      else if mode = Needle then Pointer (Some NeedleGenerator)
      else if mode = Uniform then Pointer (Some UniformGenerator)
      else if mode = Gaussian then Pointer (Some GaussianGenerator)
      else Pointer generator)"

text \<open>Lines 98 to 104: one draw and one picture per example.\<close>

definition example_file :: "string \<Rightarrow> string \<Rightarrow> nat \<Rightarrow> string" where
  "example_file outdir project i =
     outdir @ ''exampleSignal.'' @ to_string (int (to_unsigned (i + 1))) @ ''.'' @ project @ ''.pdf''"

definition draw_example ::
  "('e, 'm) ops \<Rightarrow> generator \<Rightarrow> string \<Rightarrow> string \<Rightarrow> nat \<Rightarrow> ('e, 'm) state \<Rightarrow> ('e, 'm) state" where
  "draw_example ops g outdir project i s =
     (let s1 = emit [GeneratorNext] (s\<lparr>examples := examples s @ [op_next ops g i]\<rparr>)
      in case vector_at (examples s1) i of
           Inl e \<Rightarrow> throw e s1
         | Inr m \<Rightarrow> canvas_SaveAs (example_file outdir project i) s1)"

definition generate_examples ::
  "('e, 'm) ops \<Rightarrow> generator \<Rightarrow> string \<Rightarrow> string \<Rightarrow> ('e, 'm) state \<Rightarrow> ('e, 'm) state" where
  "generate_examples ops g outdir project s =
     for_loop 0 10 (\<lambda>i. running (draw_example ops g outdir project i)) s"

subsection \<open>The snapshot scan\<close>

text \<open>
  \<open>arma::as_scalar(filter.row(k))\<close> on a column vector: row \<open>k\<close> must exist.
\<close>

definition as_scalar_row :: "filter \<Rightarrow> nat \<Rightarrow> error + real" where
  "as_scalar_row f k = (if k < length f then Inr (f ! k) else Inl LogicError)"

text \<open>Lines 145 to 149: the points of the filter graph, for \<open>i\<close> from \<open>i\<close> below \<open>Ncoeffs\<close>.\<close>

function filter_points :: "filter list \<Rightarrow> nat \<Rightarrow> nat \<Rightarrow> error + (real \<times> real) list" where
  "filter_points filterLog Ncoeffs i =
     (if i < Ncoeffs then
        (case vector_at filterLog i of
           Inl e \<Rightarrow> Inl e
         | Inr f \<Rightarrow>
            (case as_scalar_row f 0 of
               Inl e \<Rightarrow> Inl e
             | Inr x \<Rightarrow>
                (case as_scalar_row f 1 of
                   Inl e \<Rightarrow> Inl e
                 | Inr y \<Rightarrow>
                    (case filter_points filterLog Ncoeffs (i + 1) of
                       Inl e \<Rightarrow> Inl e
                     | Inr ps \<Rightarrow> Inr ((x, y) # ps)))))
      else Inr [])"
  by pat_completeness auto
termination
  by (relation "measure (\<lambda>(filterLog, Ncoeffs, i). Ncoeffs - i)") auto

declare filter_points.simps [simp del]

text \<open>
  Lines 116 to 154, the body of the \<open>while\<close> loop. The index \<open>snap.number() - 1\<close> is
  computed in unsigned arithmetic, as is \<open>costLog.size() - 2\<close>. The variables
  \<open>tmpMin\<close>, \<open>tmpMax\<close> and \<open>maxCost\<close> are left out: they are computed from the graph just
  stored, through the same checked access, and nothing reads \<open>maxCost\<close> afterwards.
\<close>

definition scan_body :: "('e, 'm) ops \<Rightarrow> string \<Rightarrow> ('e, 'm) state \<Rightarrow> ('e, 'm) state" where
  "scan_body ops pattern s0 =
     (let s = engine_load ops (snapshot_file pattern (snap s0)) s0;
          filterLog = op_filterLog ops (wavenet s);
          costLog = op_costLog ops (wavenet s);
          s1 = (if longestCost s < length costLog
                then s\<lparr>longestCost := to_unsigned (length costLog)\<rparr> else s);
          Ncoeffs = to_unsigned (length filterLog);
          k = size_minus (snap s) 1
      in case vector_at_put (costGraphs s1) k costLog of
           Inl e \<Rightarrow> throw e s1
         | Inr cg \<Rightarrow>
            (let s2 = s1\<lparr>costGraphs := cg\<rparr>
             in case vector_at costLog (size_minus (length costLog) 2) of
                  Inl e \<Rightarrow> throw e s2
                | Inr c \<Rightarrow>
                   (let s3 = (if c < minCost s2
                              then s2\<lparr>bestBasis := snap s - 1, minCost := c\<rparr> else s2)
                    in case filter_points filterLog Ncoeffs 0 of
                         Inl e \<Rightarrow> throw e s3
                       | Inr pts \<Rightarrow>
                          (case vector_at_put (filterGraphs s3) k pts of
                             Inl e \<Rightarrow> throw e s3
                           | Inr fg \<Rightarrow> s3\<lparr>filterGraphs := fg, snap := snap s + 1\<rparr>))))"

text \<open>Lines 114 to 156: \<open>while (snap.exists() && snap.number() <= M)\<close>.\<close>

function scan_loop :: "('e, 'm) ops \<Rightarrow> string \<Rightarrow> nat \<Rightarrow> ('e, 'm) state \<Rightarrow> ('e, 'm) state" where
  "scan_loop ops pattern M s =
     (if snapshot_exists pattern s \<and> snap s \<le> M then
        (let s' = scan_body ops pattern s
         in if outcome s' = None then scan_loop ops pattern M s' else s')
      else s)"
  by pat_completeness auto
termination
proof (relation "measure (\<lambda>(ops, pattern, M, s). Suc M - snap s)")
  show "wf (measure (\<lambda>(ops, pattern, M, s). Suc M - snap s))" by simp
next
  fix ops :: "('e, 'm) ops" and pattern :: string and M :: nat
    and s s' :: "('e, 'm) state"
  assume c: "snapshot_exists pattern s \<and> snap s \<le> M"
    and b: "s' = scan_body ops pattern s" and r: "outcome s' = None"
  from b r have "snap s' = Suc (snap s)"
    by (auto simp: scan_body_def Let_def throw_def engine_load_def emit_def
        split: sum.splits if_splits)
  with c show "((ops, pattern, M, s'), (ops, pattern, M, s))
      \<in> measure (\<lambda>(ops, pattern, M, s). Suc M - snap s)"
    by auto
qed

declare scan_loop.simps [simp del]

definition scan :: "('e, 'm) ops \<Rightarrow> string \<Rightarrow> nat \<Rightarrow> ('e, 'm) state \<Rightarrow> ('e, 'm) state" where
  "scan ops pattern M s = scan_loop ops pattern M s"

text \<open>
  Lines 160 to 186 draw the cost graphs and lines 278 to 295 the filter graphs: loops
  over \<open>m < M\<close> that read \<open>costGraphs.at(m)\<close> and \<open>filterGraphs.at(m)\<close>. Of the drawing
  only the checked accesses and the saved picture are kept.
\<close>

definition draw_cost_graphs :: "string \<Rightarrow> nat \<Rightarrow> ('e, 'm) state \<Rightarrow> ('e, 'm) state" where
  "draw_cost_graphs outdir M s =
     (if \<exists>m \<in> set [0..<M]. vector_at (costGraphs s) m = Inl OutOfRange
      then throw OutOfRange s
      else canvas_SaveAs (outdir @ ''CostGraph'' @ ''.pdf'') s)"

definition draw_cost_map :: "string \<Rightarrow> nat \<Rightarrow> ('e, 'm) state \<Rightarrow> ('e, 'm) state" where
  "draw_cost_map outdir M s =
     (if \<exists>m \<in> set [0..<M]. vector_at (filterGraphs s) m = Inl OutOfRange
      then throw OutOfRange s
      else canvas_SaveAs (outdir @ ''CostMap.pdf'') s)"

subsection \<open>The cost maps and their cache\<close>

text \<open>Lines 214 to 234.\<close>

definition cost_map_step :: "('e, 'm) ops \<Rightarrow> string \<Rightarrow> ('e, 'm) state \<Rightarrow> ('e, 'm) state" where
  "cost_map_step ops project s =
     (if \<not> fileExists s (costMapName project) then
        (case op_costMap ops (wavenet s) (examples s) of
           ((c0, c1, c2), w) \<Rightarrow>
             (let s1 = emit [CostMapEval] (s\<lparr>wavenet := w\<rparr>);
                  s2 = mat_save c0 (costMapName project) (s1\<lparr>costMap := Some c0\<rparr>);
                  s3 = mat_save c1 (costMapSparseName project) (s2\<lparr>costMap := Some c1\<rparr>);
                  s4 = mat_save c2 (costMapRegName project) (s3\<lparr>costMap := Some c2\<rparr>)
              in s4\<lparr>costMap := Some c0\<rparr>))
      else
        (let s1 = emit [MatLoad (costMapName project)]
                    (s\<lparr>costMap := mat_load s (costMapName project)\<rparr>);
             s2 = emit [MatLoad (costMapSparseName project)]
                    (s1\<lparr>costMapSparse := mat_load s1 (costMapSparseName project)\<rparr>);
             s3 = emit [MatLoad (costMapRegName project)]
                    (s2\<lparr>costMapReg := mat_load s2 (costMapRegName project)\<rparr>)
         in s3))"

subsection \<open>The best snapshot, the orthonormality audit and the movie\<close>

text \<open>Lines 319 and 320.\<close>

definition load_best :: "('e, 'm) ops \<Rightarrow> string \<Rightarrow> ('e, 'm) state \<Rightarrow> ('e, 'm) state" where
  "load_best ops pattern s =
     (let s1 = s\<lparr>snap := bestBasis s + 1\<rparr>
      in engine_load ops (snapshot_file pattern (snap s1)) s1)"

text \<open>Line 334: the value handed to \<open>norms.Fill\<close>.\<close>

definition fill_value :: "real \<Rightarrow> real" where
  "fill_value nrm = (if nrm < - 0.5 then - 0.499 else (if nrm > 1.5 then 1.499 else nrm))"

text \<open>Lines 331 to 334, the body of the two audit loops; lines 329 to 336, the loops.\<close>

definition audit_cell ::
  "('e, 'm) ops \<Rightarrow> nat \<Rightarrow> nat \<Rightarrow> nat \<Rightarrow> nat \<Rightarrow> ('e, 'm) state \<Rightarrow> ('e, 'm) state" where
  "audit_cell ops sizex sizey i j s =
     (case op_basisFunction ops (wavenet s) sizex sizey (i mod sizex) (j div sizey) of
        (f1, w1) \<Rightarrow>
          (case op_basisFunction ops w1 sizex sizey (i mod sizex) (j div sizey) of
             (f2, w2) \<Rightarrow>
               (let nrm = op_overlap ops f1 f2
                in emit [BasisFunction sizex sizey (i mod sizex) (j div sizey),
                         BasisFunction sizex sizey (i mod sizex) (j div sizey),
                         HistFill (fill_value nrm)]
                     (s\<lparr>wavenet := w2\<rparr>))))"

definition audit :: "('e, 'm) ops \<Rightarrow> string \<Rightarrow> nat \<Rightarrow> nat \<Rightarrow> ('e, 'm) state \<Rightarrow> ('e, 'm) state" where
  "audit ops outdir sizex sizey s =
     canvas_SaveAs (outdir @ ''NormDistributions.pdf'')
       (for_loop 0 (sq sizex) (\<lambda>i.
          for_loop 0 (sq sizey) (\<lambda>j. audit_cell ops sizex sizey i j)) s)"

text \<open>
  Lines 373 to 410. The frame name is printed into a buffer of 100 bytes, so at most 99
  characters of it are kept. The loop carries the state and \<open>iFrame\<close>.
\<close>

definition frame_file :: "string \<Rightarrow> nat \<Rightarrow> string" where
  "frame_file outdir iFrame = take 99 (outdir @ ''movie/bestBasis_'' @ pad6 iFrame @ ''.png'')"

definition basis_call ::
  "('e, 'm) ops \<Rightarrow> nat \<Rightarrow> nat \<Rightarrow> nat \<Rightarrow> nat \<Rightarrow> ('e, 'm) state \<Rightarrow> ('e, 'm) state" where
  "basis_call ops sizex sizey i j s =
     (case op_basisFunction ops (wavenet s) sizex sizey i j of
        (f, w) \<Rightarrow> emit [BasisFunction sizex sizey i j] (s\<lparr>wavenet := w\<rparr>))"

definition render_pixels ::
  "('e, 'm) ops \<Rightarrow> nat \<Rightarrow> nat \<Rightarrow> nat \<Rightarrow> nat \<Rightarrow> ('e, 'm) state \<Rightarrow> ('e, 'm) state" where
  "render_pixels ops sizex sizey dimx dimy s =
     for_loop 0 dimx (\<lambda>i. for_loop 0 dimy (\<lambda>j. basis_call ops sizex sizey i j)) s"

definition render_step ::
  "('e, 'm) ops \<Rightarrow> string \<Rightarrow> nat \<Rightarrow> nat \<Rightarrow> nat \<Rightarrow> nat \<Rightarrow> filter list \<Rightarrow> nat \<Rightarrow> nat \<Rightarrow>
   ('e, 'm) state \<times> nat \<Rightarrow> ('e, 'm) state \<times> nat" where
  "render_step ops outdir sizex sizey dimx dimy filterLog Ncoeffs iCoeff st =
     (case st of (s, iFrame) \<Rightarrow>
        if outcome s \<noteq> None then (s, iFrame)
        else
          (case vector_at filterLog iCoeff of
             Inl e \<Rightarrow> (throw e s, iFrame)
           | Inr filter_i \<Rightarrow>
              (let s1 = emit [SetFilter filter_i]
                          (s\<lparr>wavenet := op_setFilter ops (wavenet s) filter_i\<rparr>)
               in if iCoeff > 100 \<and> iCoeff < unsigned_minus Ncoeffs 100 \<and> iCoeff mod 4 > 0
                  then (s1, iFrame)
                  else (canvas_SaveAs (frame_file outdir iFrame)
                          (render_pixels ops sizex sizey dimx dimy s1),
                        to_unsigned (iFrame + 1)))))"

definition render :: "('e, 'm) ops \<Rightarrow> string \<Rightarrow> nat \<Rightarrow> nat \<Rightarrow> ('e, 'm) state \<Rightarrow> ('e, 'm) state" where
  "render ops outdir sizex sizey s =
     (let dim = 8;
          dimx = min sizex dim;
          dimy = min sizey dim;
          filterLog = op_filterLog ops (wavenet s);
          Ncoeffs = to_unsigned (length filterLog)
      in fst (for_loop 0 Ncoeffs
                (render_step ops outdir sizex sizey dimx dimy filterLog Ncoeffs) (s, 0)))"

subsection \<open>The program\<close>

text \<open>
  \<open>main\<close>, from the disk and the engine it starts with (the engine after
  \<open>doWavelet(true)\<close>). The mode, which the source sets in its first lines, is an argument;
  \<open>M\<close> and \<open>Nfilter\<close> are the constants of the source. The pointer \<open>generator\<close> is null
  when the tests of lines 82 to 93 are reached, since the only constructor call of the
  File branch is commented out. The shape read back on lines 327 and 328 is the one set
  on line 95.
\<close>

definition initial :: "(string \<Rightarrow> ('e, 'm) content option) \<Rightarrow> 'e \<Rightarrow> nat \<Rightarrow> ('e, 'm) state" where
  "initial d w M =
     \<lparr>outcome = None, disk = d, trace = [], wavenet = w, snap = 1,
      costGraphs = replicate M [], filterGraphs = replicate M [],
      bestBasis = 0, minCost = 99999, longestCost = 0, examples = [],
      costMap = None, costMapSparse = None, costMapReg = None\<rparr>"

text \<open>Lines 95 to 156: the examples and the scan.\<close>

definition survey ::
  "('e, 'm) ops \<Rightarrow> generator \<Rightarrow> string \<Rightarrow> nat \<Rightarrow> ('e, 'm) state \<Rightarrow> ('e, 'm) state" where
  "survey ops g project M s =
     running (scan ops (pattern_of project) M)
       (generate_examples ops g (outdir_of project) project s)"

text \<open>Lines 158 to 314: the cost graphs and the cost map.\<close>

definition charts :: "('e, 'm) ops \<Rightarrow> string \<Rightarrow> nat \<Rightarrow> ('e, 'm) state \<Rightarrow> ('e, 'm) state" where
  "charts ops project M s =
     running (draw_cost_map (outdir_of project) M)
       (running (cost_map_step ops project)
          (running (draw_cost_graphs (outdir_of project) M) s))"

text \<open>Lines 317 to 410: the best snapshot, the audit and the movie.\<close>

definition basis ::
  "('e, 'm) ops \<Rightarrow> string \<Rightarrow> nat \<Rightarrow> nat \<Rightarrow> ('e, 'm) state \<Rightarrow> ('e, 'm) state" where
  "basis ops project sizex sizey s =
     running (render ops (outdir_of project) sizex sizey)
       (running (audit ops (outdir_of project) sizex sizey)
          (running (load_best ops (pattern_of project)) s))"

definition analysis ::
  "('e, 'm) ops \<Rightarrow> generator \<Rightarrow> string \<Rightarrow> nat \<Rightarrow> ('e, 'm) state \<Rightarrow> ('e, 'm) state" where
  "analysis ops g project M s =
     (let sizex = [16, 16] ! 0;
          sizey = [16, 16] ! 1
      in running (return 1)
           (basis ops project sizex sizey (charts ops project M (survey ops g project M s))))"

definition main ::
  "('e, 'm) ops \<Rightarrow> GeneratorMode \<Rightarrow> (string \<Rightarrow> ('e, 'm) content option) \<Rightarrow> 'e \<Rightarrow> ('e, 'm) state" where
  "main ops mode d w =
     (let M = 5;
          Nfilter = 4;
          s0 = initial d w M
      in case project_name mode Nfilter of
           None \<Rightarrow> return 0 s0
         | Some project \<Rightarrow>
            (let s1 = engine_save (outdir_of project @ ''tmp.snap'') s0
             in case select_generator ops mode None of
                  Exit1 \<Rightarrow> return 1 s1
                | Pointer None \<Rightarrow> throw NullPointer s1
                | Pointer (Some g) \<Rightarrow> analysis ops g project M s1))"

subsection \<open>A small engine for concrete runs\<close>

text \<open>
  An engine whose state is the pair of logs of the snapshot it holds: loading a snapshot
  file replaces the logs, loading anything else leaves them. Matrices are numbers.
\<close>

definition demo_ops :: "(filter list \<times> real list, nat) ops" where
  "demo_ops =
     \<lparr>op_load = (\<lambda>e f. case f of Some (Snap e') \<Rightarrow> e' | _ \<Rightarrow> e),
      op_filterLog = fst,
      op_costLog = snd,
      op_setFilter = (\<lambda>e f. e),
      op_basisFunction = (\<lambda>e sizex sizey i j. (i + j, e)),
      op_costMap = (\<lambda>e xs. ((1, 2, 3), e)),
      op_overlap = (\<lambda>f1 f2. real (f1 + f2) - 1),
      op_next = (\<lambda>g i. i),
      op_good = (\<lambda>g. False)\<rparr>"

definition demo_engine :: "filter list \<times> real list" where
  "demo_engine = ([], [])"

text \<open>A disk that holds the raw cost map of the Needle runs and nothing else.\<close>

definition cached_only_raw :: "string \<Rightarrow> (filter list \<times> real list, nat) content option" where
  "cached_only_raw = (\<lambda>p. None)(costMapName ''Run.Needle.N4'' \<mapsto> Matrix 7)"

definition empty_disk :: "string \<Rightarrow> (filter list \<times> real list, nat) content option" where
  "empty_disk = (\<lambda>p. None)"

text \<open>The pictures a trace saves, in order.\<close>

fun saved_pictures :: "event list \<Rightarrow> string list" where
  "saved_pictures [] = []"
| "saved_pictures (CanvasSaveAs p # es) = p # saved_pictures es"
| "saved_pictures (e # es) = saved_pictures es"

text \<open>
  The thinning of the movie in the words of the specification: of \<open>N\<close> filter states,
  the first hundred and the last hundred are all kept, the others when their index is a
  multiple of four.
\<close>

definition retained :: "nat \<Rightarrow> nat \<Rightarrow> bool" where
  "retained N i = (i < 100 \<or> N \<le> i + 100 \<or> i mod 4 = 0)"

text \<open>
  What the movie loop is expected to do for state \<open>i\<close> of the filter log \<open>fl\<close>: set the
  filter and, for a retained state, synthesize every pixel of the neighbourhood, row by
  row, and save the frame whose number is the count of retained states before \<open>i\<close>.
\<close>

definition frame_events ::
  "string \<Rightarrow> nat \<Rightarrow> nat \<Rightarrow> filter list \<Rightarrow> nat \<Rightarrow> event list" where
  "frame_events outdir W H fl i =
     SetFilter (fl ! i) #
     (if retained (length fl) i
      then map (\<lambda>(x, y). BasisFunction W H x y) (List.product [0..<min W 8] [0..<min H 8]) @
           [CanvasSaveAs (frame_file outdir (length (filter (retained (length fl)) [0..<i])))]
      else [])"

text \<open>
  Vocabulary for the scan. \<open>scanned_from d pattern n M\<close> is the number of snapshots that
  exist on disk \<open>d\<close> at the indices \<open>n, n + 1, \<dots>\<close> without a gap, up to index \<open>M\<close>, and
  \<open>scanned d pattern M\<close> that number from index 1.
  \<open>engine_from ops pattern d w a k\<close> is the engine after loading the \<open>k\<close> snapshots
  \<open>a, a + 1, \<dots>\<close> in turn, starting from \<open>w\<close>; \<open>engine_at ops pattern d w n\<close> is the engine
  after loading the snapshots \<open>1, \<dots>, n\<close>, and \<open>cost_of ops pattern d w n\<close> the
  second-to-last entry of the cost log it then reports.
\<close>

definition scanned_from ::
  "(string \<Rightarrow> ('e, 'm) content option) \<Rightarrow> string \<Rightarrow> nat \<Rightarrow> nat \<Rightarrow> nat" where
  "scanned_from d pattern n M =
     length (takeWhile (\<lambda>k. d (snapshot_file pattern k) \<noteq> None) [n..<Suc M])"

definition scanned :: "(string \<Rightarrow> ('e, 'm) content option) \<Rightarrow> string \<Rightarrow> nat \<Rightarrow> nat" where
  "scanned d pattern M = scanned_from d pattern 1 M"

fun engine_from ::
  "('e, 'm) ops \<Rightarrow> string \<Rightarrow> (string \<Rightarrow> ('e, 'm) content option) \<Rightarrow> 'e \<Rightarrow> nat \<Rightarrow> nat \<Rightarrow> 'e" where
  "engine_from ops pattern d w a 0 = w"
| "engine_from ops pattern d w a (Suc k) =
     op_load ops (engine_from ops pattern d w a k) (d (snapshot_file pattern (a + k)))"

definition engine_at ::
  "('e, 'm) ops \<Rightarrow> string \<Rightarrow> (string \<Rightarrow> ('e, 'm) content option) \<Rightarrow> 'e \<Rightarrow> nat \<Rightarrow> 'e" where
  "engine_at ops pattern d w n = engine_from ops pattern d w 1 n"

definition second_to_last :: "real list \<Rightarrow> real" where
  "second_to_last costLog = costLog ! (length costLog - 2)"

definition cost_from ::
  "('e, 'm) ops \<Rightarrow> string \<Rightarrow> (string \<Rightarrow> ('e, 'm) content option) \<Rightarrow> 'e \<Rightarrow> nat \<Rightarrow> nat \<Rightarrow> real" where
  "cost_from ops pattern d w a k =
     second_to_last (op_costLog ops (engine_from ops pattern d w a (Suc k)))"

definition cost_of ::
  "('e, 'm) ops \<Rightarrow> string \<Rightarrow> (string \<Rightarrow> ('e, 'm) content option) \<Rightarrow> 'e \<Rightarrow> nat \<Rightarrow> real" where
  "cost_of ops pattern d w n = second_to_last (op_costLog ops (engine_at ops pattern d w n))"

text \<open>The events of the audit and of the movie, and the loads of the engine.\<close>

fun audit_or_movie :: "event \<Rightarrow> bool" where
  "audit_or_movie (SetFilter f) = True"
| "audit_or_movie (BasisFunction a b c d) = True"
| "audit_or_movie (HistFill v) = True"
| "audit_or_movie e = False"

fun is_load :: "event \<Rightarrow> bool" where
  "is_load (EngineLoad p) = True"
| "is_load e = False"

text \<open>The files the engine loads along a trace, in order.\<close>

fun loads :: "event list \<Rightarrow> string list" where
  "loads [] = []"
| "loads (EngineLoad p # es) = p # loads es"
| "loads (e # es) = loads es"

text \<open>
  Disks for concrete runs of the Needle project. On \<open>gap_disk\<close> the snapshots 1, 2 and 4
  exist and 3 is missing; the second-to-last costs of 1 and 2 are 200000 and 100000. On
  \<open>three_snapshots\<close> the snapshots 1, 2 and 3 exist, with second-to-last costs 0.4, 0.3
  and 0.1. On \<open>short_log_disk\<close> snapshot 1 has a cost log of one entry.
\<close>

definition gap_disk :: "string \<Rightarrow> (filter list \<times> real list, nat) content option" where
  "gap_disk =
     (\<lambda>p. None)
       (''./output/Run.Needle.N4/snapshots/Run.Needle.N4.000001.snap'' \<mapsto>
          Snap ([[1, 0], [0.5, 0.5]], [3, 200000, 0]),
        ''./output/Run.Needle.N4/snapshots/Run.Needle.N4.000002.snap'' \<mapsto>
          Snap ([[0, 1]], [2, 100000, 0]),
        ''./output/Run.Needle.N4/snapshots/Run.Needle.N4.000004.snap'' \<mapsto>
          Snap ([[0, 1]], [2, 1, 0]))"

definition three_snapshots :: "string \<Rightarrow> (filter list \<times> real list, nat) content option" where
  "three_snapshots =
     (\<lambda>p. None)
       (''./output/Run.Needle.N4/snapshots/Run.Needle.N4.000001.snap'' \<mapsto>
          Snap ([[1, 0], [0.5, 0.5]], [0.7, 0.4, 0.05]),
        ''./output/Run.Needle.N4/snapshots/Run.Needle.N4.000002.snap'' \<mapsto>
          Snap ([[0, 1]], [0.3, 0.01]),
        ''./output/Run.Needle.N4/snapshots/Run.Needle.N4.000003.snap'' \<mapsto>
          Snap ([[0, 1], [1, 1]], [0.6, 0.5, 0.1, 0.9]))"


section \<open>Properties of the string functions\<close>

subsection \<open>split and join\<close>

lemma extract_item_free: "d \<notin> set x \<Longrightarrow> extract_item x d = (x, [])"
  by (induction x) auto

lemma extract_item_at_delim: "d \<notin> set x \<Longrightarrow> extract_item (x @ d # r) d = (x, r)"
  by (induction x) auto

lemma extract_item_decomp:
  "extract_item s d = (item, rest) \<Longrightarrow>
     d \<notin> set item \<and> ((s = item \<and> rest = [] \<and> d \<notin> set s) \<or> s = item @ d # rest)"
  by (induction s arbitrary: item rest) (auto split: if_splits prod.splits)

lemma extract_item_length: "length (snd (extract_item s d)) \<le> length s"
  by (induction s) (auto split: prod.splits)

lemma split_loop_acc: "split_loop s d acc = acc @ split_loop s d []"
proof (induction "length s" arbitrary: s acc rule: less_induct)
  case less
  show ?case
  proof (cases s)
    case Nil
    then show ?thesis by (simp add: getline_def)
  next
    case (Cons c cs)
    obtain item rest where e: "extract_item s d = (item, rest)" by (cases "extract_item s d")
    have "length rest < length s"
    proof (cases "c = d")
      case True with e Cons show ?thesis by auto
    next
      case False
      with e Cons have "rest = snd (extract_item cs d)" by (auto split: prod.splits)
      with extract_item_length[of cs d] Cons show ?thesis by simp
    qed
    then have ih: "split_loop rest d a = a @ split_loop rest d []" for a
      using less by blast
    have g: "getline s d = Some (item, rest)" using e Cons by (simp add: getline_def)
    have "split_loop s d acc = split_loop rest d (acc @ [item])"
      using g by (simp add: split_loop.simps[of s])
    also have "\<dots> = acc @ [item] @ split_loop rest d []" using ih[of "acc @ [item]"] by simp
    also have "[item] @ split_loop rest d [] = split_loop s d []"
      using g ih[of "[item]"] by (simp add: split_loop.simps[of s])
    finally show ?thesis .
  qed
qed

lemma split_Nil: "split [] d = []"
  by (simp add: split_def getline_def)

lemma split_step:
  "s \<noteq> [] \<Longrightarrow> split s d = fst (extract_item s d) # split (snd (extract_item s d)) d"
  unfolding split_def
  by (subst split_loop.simps, subst split_loop_acc) (simp add: getline_def split: prod.splits)

lemma split_free: "x \<noteq> [] \<Longrightarrow> d \<notin> set x \<Longrightarrow> split x d = [x]"
  by (simp add: split_step extract_item_free split_Nil)

lemma split_at_delim: "d \<notin> set x \<Longrightarrow> split (x @ d # r) d = x # split r d"
  by (simp add: split_step extract_item_at_delim)

lemma split_nonempty: "s \<noteq> [] \<Longrightarrow> split s d \<noteq> []"
  by (simp add: split_step)

lemma join_Cons: "ys \<noteq> [] \<Longrightarrow> join d (x # ys) = x @ d # join d ys"
  by (cases ys) auto

lemma join_split_aux: "s = [] \<or> last s \<noteq> d \<Longrightarrow> join d (split s d) = s"
proof (induction "length s" arbitrary: s rule: less_induct)
  case less
  show ?case
  proof (cases "s = []")
    case True then show ?thesis by (simp add: split_Nil)
  next
    case False
    with less.prems have l: "last s \<noteq> d" by simp
    obtain item rest where e: "extract_item s d = (item, rest)" by (cases "extract_item s d")
    from extract_item_decomp[OF e] have fr: "d \<notin> set item"
      and c: "(s = item \<and> rest = [] \<and> d \<notin> set s) \<or> s = item @ d # rest" by auto
    from c show ?thesis
    proof
      assume "s = item \<and> rest = [] \<and> d \<notin> set s"
      then have "d \<notin> set s" by blast
      with False have "split s d = [s]" by (rule split_free)
      then show ?thesis by simp
    next
      assume s: "s = item @ d # rest"
      with l have r: "rest \<noteq> []" "last rest \<noteq> d" by auto
      have "length rest < length s" using s by simp
      then have "join d (split rest d) = rest" using less.hyps r by blast
      then show ?thesis using s fr r by (simp add: split_at_delim join_Cons split_nonempty)
    qed
  qed
qed

lemma join_snoc_empty: "xs \<noteq> [] \<Longrightarrow> join d (xs @ [[]]) = join d xs @ [d]"
  by (induction d xs rule: join.induct) auto

lemma split_join_trailing_aux:
  "\<forall>x\<in>set xs. d \<notin> set x \<Longrightarrow> split (join d (xs @ [[]])) d = xs"
proof (induction xs)
  case Nil then show ?case by (simp add: split_Nil)
next
  case (Cons x xs)
  then show ?case by (simp add: join_Cons split_at_delim)
qed

lemma split_join_aux:
  "xs \<noteq> [] \<Longrightarrow> last xs \<noteq> [] \<Longrightarrow> \<forall>x\<in>set xs. d \<notin> set x \<Longrightarrow> split (join d xs) d = xs"
proof (induction d xs rule: join.induct)
  case (1 d) then show ?case by simp
next
  case (2 d x) then show ?case by (simp add: split_free)
next
  case (3 d x y ys)
  then show ?case by (simp add: split_at_delim del: join.simps(3)) (simp add: split_at_delim)
qed

text \<open>
  Claim C9. For every delimiter \<open>d\<close> and every string \<open>s\<close> that is empty or does not
  end with \<open>d\<close>, joining the elements of \<open>split s d\<close> with \<open>d\<close> gives \<open>s\<close> back.
  Empty segments between delimiters are kept as empty elements: a list of delimiter-free
  segments whose last one is not empty is recovered exactly from its joined string. A
  delimiter at the very end yields no element after it: the joined string of the
  segments followed by one more (empty) segment splits into the segments alone.
\<close>

theorem split_join_roundtrip:
  "(s = [] \<or> last s \<noteq> d \<longrightarrow> join d (split s d) = s) \<and>
   ((\<forall>x\<in>set xs. d \<notin> set x) \<longrightarrow>
      split (join d (xs @ [[]])) d = xs \<and>
      (xs \<noteq> [] \<and> last xs \<noteq> [] \<longrightarrow> split (join d xs) d = xs))"
  by (simp add: join_split_aux split_join_trailing_aux split_join_aux)

theorem split_join_roundtrip_witness:
  "join (CHR '','') (split ''a,,b'' (CHR '','')) = ''a,,b'' \<and>
   split ''a,,b'' (CHR '','') = [''a'', [], ''b''] \<and>
   split ''a,,b,'' (CHR '','') = [''a'', [], ''b'']"
  using split_join_roundtrip [of "''a,,b''" "CHR '',''" "[''a'', [], ''b'']"]
  by simp

subsection \<open>isNumber and isEmpty\<close>

lemma strcmp_single:
  "l \<noteq> CHR 0x00 \<Longrightarrow> strcmp_is_0 (c # aft) [l] = (c = l \<and> cstr aft = [])"
  by (auto simp: strcmp_is_0_def cstr_def)

lemma numeric_char_class:
  "numeric_char c aft \<Longrightarrow> isdigit c \<or> c = CHR ''.'' \<or> c = CHR '' ''"
  by (auto simp: numeric_char_def strcmp_single)

lemma numeric_char_terminated:
  "cstr aft = [] \<Longrightarrow> numeric_char c aft = (isdigit c \<or> c = CHR ''.'' \<or> c = CHR '' '')"
  by (auto simp: numeric_char_def strcmp_single)

lemma blank_char_class: "blank_char c aft \<Longrightarrow> c = CHR '' ''"
  by (auto simp: blank_char_def strcmp_single)

lemma blank_char_terminated: "cstr aft = [] \<Longrightarrow> blank_char c aft = (c = CHR '' '')"
  by (auto simp: blank_char_def strcmp_single)

lemma find_enumerate_None:
  "(List.find (\<lambda>(i, c). \<not> P c i) (enumerate 0 s) = None) = (\<forall>i<length s. P (s ! i) i)"
  by (auto simp: find_None_iff in_set_enumerate_eq)

lemma isNumber_iff: "isNumber after s = (s \<noteq> [] \<and> (\<forall>i<length s. numeric_char (s ! i) (after i)))"
  unfolding isNumber_def by (simp add: find_enumerate_None)

lemma isEmpty_iff: "isEmpty after s = (s \<noteq> [] \<and> (\<forall>i<length s. blank_char (s ! i) (after i)))"
  unfolding isEmpty_def by (simp add: find_enumerate_None)

text \<open>
  Claim C10. On the empty string both predicates are false. Each of them holds only for
  a non-empty string all of whose characters are in its class (digit, dot or blank for
  \<open>isNumber\<close>; blank for \<open>isEmpty\<close>), whatever the bytes after the lambda's parameter
  are; when those bytes terminate the C string at once, this is exactly when it holds.
\<close>

theorem predicates_on_empty_string:
  "\<not> isNumber after [] \<and> \<not> isEmpty after [] \<and>
   (isNumber after s \<longrightarrow>
      s \<noteq> [] \<and> (\<forall>c\<in>set s. isdigit c \<or> c = CHR ''.'' \<or> c = CHR '' '')) \<and>
   (isEmpty after s \<longrightarrow> s \<noteq> [] \<and> (\<forall>c\<in>set s. c = CHR '' '')) \<and>
   ((\<forall>i. cstr (after i) = []) \<longrightarrow>
      isNumber after s = (s \<noteq> [] \<and> (\<forall>c\<in>set s. isdigit c \<or> c = CHR ''.'' \<or> c = CHR '' '')) \<and>
      isEmpty after s = (s \<noteq> [] \<and> (\<forall>c\<in>set s. c = CHR '' '')))"
proof (intro conjI impI)
  show "\<not> isNumber after []" by (simp add: isNumber_def)
  show "\<not> isEmpty after []" by (simp add: isEmpty_def)
next
  assume "isNumber after s"
  then show "s \<noteq> []" by (simp add: isNumber_iff)
next
  assume "isNumber after s"
  then have "\<forall>i<length s. numeric_char (s ! i) (after i)" by (simp add: isNumber_iff)
  then show "\<forall>c\<in>set s. isdigit c \<or> c = CHR ''.'' \<or> c = CHR '' ''"
    by (metis in_set_conv_nth numeric_char_class)
next
  assume "isEmpty after s"
  then show "s \<noteq> []" by (simp add: isEmpty_iff)
next
  assume "isEmpty after s"
  then have "\<forall>i<length s. blank_char (s ! i) (after i)" by (simp add: isEmpty_iff)
  then show "\<forall>c\<in>set s. c = CHR '' ''"
    by (metis in_set_conv_nth blank_char_class)
next
  assume t: "\<forall>i. cstr (after i) = []"
  show "isNumber after s = (s \<noteq> [] \<and> (\<forall>c\<in>set s. isdigit c \<or> c = CHR ''.'' \<or> c = CHR '' ''))"
    using t by (simp add: isNumber_iff numeric_char_terminated all_set_conv_all_nth)
  show "isEmpty after s = (s \<noteq> [] \<and> (\<forall>c\<in>set s. c = CHR '' ''))"
    using t by (simp add: isEmpty_iff blank_char_terminated all_set_conv_all_nth)
qed

theorem predicates_on_empty_string_witness:
  "isNumber (\<lambda>i. []) ''1 2.5'' \<and> isEmpty (\<lambda>i. []) ''  '' \<and>
   \<not> isNumber (\<lambda>i. ''x'') ''1a'' \<and> \<not> isEmpty (\<lambda>i. ''x'') '' 1''"
proof -
  have t: "\<forall>i. cstr ((\<lambda>i. []) i) = []" by (simp add: cstr_def)
  have n: "isNumber (\<lambda>i. []) ''1 2.5''"
    using predicates_on_empty_string [of "\<lambda>i. []" "''1 2.5''"] t
    by (simp add: isdigit_def)
  have e: "isEmpty (\<lambda>i. []) ''  ''"
    using predicates_on_empty_string [of "\<lambda>i. []" "''  ''"] t
    by simp
  have n': "\<not> isNumber (\<lambda>i. ''x'') ''1a''"
    using predicates_on_empty_string [of "\<lambda>i. ''x''" "''1a''"]
    by (auto simp: isdigit_def)
  have e': "\<not> isEmpty (\<lambda>i. ''x'') '' 1''"
    using predicates_on_empty_string [of "\<lambda>i. ''x''" "'' 1''"]
    by auto
  from n e n' e' show ?thesis by (intro conjI)
qed

section \<open>Properties of the analysis program\<close>

subsection \<open>The cost-map cache\<close>

lemmas state_ops = emit_def throw_def return_def running_def fileExists_def engine_save_def
  engine_load_def canvas_SaveAs_def mat_save_def mat_load_def

lemma to_string_4: "to_string 4 = ''4''"
  by (simp add: to_string_def nat_digits.simps digit_char_def)

lemma Needle_names:
  "costMapName ''Run.Needle.N4'' = ''output/costMap.Run.Needle.mat''"
  "costMapSparseName ''Run.Needle.N4'' = ''output/costMapSparse.Run.Needle.mat''"
  "costMapRegName ''Run.Needle.N4'' = ''output/costMapReg.Run.Needle.mat''"
  by (simp_all add: costMapName_def costMapSparseName_def costMapRegName_def regex_dot_def
      isdigit_def)

text \<open>
  Claim C1, as stated, fails: with the raw artifact on disk and the other two missing,
  nothing is recomputed and nothing is written; the raw matrix is loaded and the other
  two loads find no file.
\<close>

theorem partial_cache_is_loaded:
  "fileExists (initial cached_only_raw demo_engine 5) (costMapName ''Run.Needle.N4'') \<and>
   \<not> fileExists (initial cached_only_raw demo_engine 5) (costMapSparseName ''Run.Needle.N4'') \<and>
   \<not> fileExists (initial cached_only_raw demo_engine 5) (costMapRegName ''Run.Needle.N4'') \<and>
   trace (cost_map_step demo_ops ''Run.Needle.N4'' (initial cached_only_raw demo_engine 5)) =
     [MatLoad ''output/costMap.Run.Needle.mat'',
      MatLoad ''output/costMapSparse.Run.Needle.mat'',
      MatLoad ''output/costMapReg.Run.Needle.mat''] \<and>
   disk (cost_map_step demo_ops ''Run.Needle.N4'' (initial cached_only_raw demo_engine 5)) =
     cached_only_raw \<and>
   costMap (cost_map_step demo_ops ''Run.Needle.N4'' (initial cached_only_raw demo_engine 5)) =
     Some 7 \<and>
   costMapSparse (cost_map_step demo_ops ''Run.Needle.N4'' (initial cached_only_raw demo_engine 5)) =
     None \<and>
   costMapReg (cost_map_step demo_ops ''Run.Needle.N4'' (initial cached_only_raw demo_engine 5)) =
     None"
  by (simp add: cost_map_step_def Needle_names cached_only_raw_def initial_def state_ops)

text \<open>
  Claim C1, amended. The three grids are recomputed, and all three artifacts written,
  exactly when the raw artifact is missing. When the raw artifact is present nothing is
  recomputed or written: each of the three matrices is loaded from its own artifact, and
  is left empty when that artifact is missing.
\<close>

theorem cost_map_cache:
  "(\<not> fileExists s (costMapName project) \<longrightarrow>
      trace (cost_map_step ops project s) =
        trace s @ [CostMapEval, MatSave (costMapName project),
                   MatSave (costMapSparseName project), MatSave (costMapRegName project)] \<and>
      disk (cost_map_step ops project s) =
        (disk s)(costMapName project \<mapsto> Matrix (fst (fst (op_costMap ops (wavenet s) (examples s)))),
                 costMapSparseName project \<mapsto>
                   Matrix (fst (snd (fst (op_costMap ops (wavenet s) (examples s))))),
                 costMapRegName project \<mapsto>
                   Matrix (snd (snd (fst (op_costMap ops (wavenet s) (examples s)))))) \<and>
      costMap (cost_map_step ops project s) =
        Some (fst (fst (op_costMap ops (wavenet s) (examples s))))) \<and>
   (fileExists s (costMapName project) \<longrightarrow>
      trace (cost_map_step ops project s) =
        trace s @ [MatLoad (costMapName project), MatLoad (costMapSparseName project),
                   MatLoad (costMapRegName project)] \<and>
      disk (cost_map_step ops project s) = disk s \<and>
      costMap (cost_map_step ops project s) = mat_load s (costMapName project) \<and>
      costMapSparse (cost_map_step ops project s) = mat_load s (costMapSparseName project) \<and>
      costMapReg (cost_map_step ops project s) = mat_load s (costMapRegName project))"
  by (simp add: cost_map_step_def state_ops Let_def split: prod.splits)

theorem cost_map_cache_witness:
  "trace (cost_map_step demo_ops ''Run.Needle.N4'' (initial empty_disk demo_engine 5)) =
     [CostMapEval, MatSave ''output/costMap.Run.Needle.mat'',
      MatSave ''output/costMapSparse.Run.Needle.mat'',
      MatSave ''output/costMapReg.Run.Needle.mat''] \<and>
   disk (cost_map_step demo_ops ''Run.Needle.N4'' (initial empty_disk demo_engine 5)) =
     empty_disk(''output/costMap.Run.Needle.mat'' \<mapsto> Matrix 1,
                ''output/costMapSparse.Run.Needle.mat'' \<mapsto> Matrix 2,
                ''output/costMapReg.Run.Needle.mat'' \<mapsto> Matrix 3) \<and>
   costMapSparse (cost_map_step demo_ops ''Run.Needle.N4''
       (initial cached_only_raw demo_engine 5)) = None"
proof -
  have a: "\<not> fileExists (initial empty_disk demo_engine 5) (costMapName ''Run.Needle.N4'')"
    by (simp add: fileExists_def initial_def empty_disk_def)
  have b: "fileExists (initial cached_only_raw demo_engine 5) (costMapName ''Run.Needle.N4'')"
    by (simp add: fileExists_def initial_def cached_only_raw_def)
  have c: "op_costMap demo_ops (wavenet (initial empty_disk demo_engine 5))
      (examples (initial empty_disk demo_engine 5)) = ((1, 2, 3), demo_engine)"
    by (simp add: demo_ops_def initial_def)
  have d: "mat_load (initial cached_only_raw demo_engine 5) (costMapSparseName ''Run.Needle.N4'')
      = None"
    by (simp add: mat_load_def initial_def cached_only_raw_def Needle_names)
  from cost_map_cache [of "initial empty_disk demo_engine 5" "''Run.Needle.N4''" demo_ops] a c
    cost_map_cache [of "initial cached_only_raw demo_engine 5" "''Run.Needle.N4''" demo_ops] b d
  show ?thesis
    by (simp add: Needle_names initial_def)
qed

subsection \<open>The File mode\<close>

lemma project_File: "project_name File 4 = Some ''Run.File.N4''"
  by (simp add: project_name_def to_string_4)

text \<open>
  Claim C2, as stated, fails: in File mode the program has saved the engine to
  \<open>tmp.snap\<close> in the output directory by the time it finds the generator missing, so a
  file that was not on the disk before is there when the program returns.
\<close>

theorem file_mode_writes_tmp_snap:
  "outcome (main demo_ops File empty_disk demo_engine) = Some (Returned 1) \<and>
   empty_disk ''./output/Run.File.N4/tmp.snap'' = None \<and>
   disk (main demo_ops File empty_disk demo_engine) ''./output/Run.File.N4/tmp.snap'' =
     Some (Snap demo_engine)"
  by (simp add: main_def project_File select_generator_def outdir_of_def initial_def
      empty_disk_def state_ops)

text \<open>
  Claim C2, amended. In File mode the generator pointer is null when it is tested, and
  a null or not ready generator makes the program return 1 there. By then no example has
  been drawn and exactly one file has been written: the engine saved to \<open>tmp.snap\<close> in
  the output directory. No other output file is written.
\<close>

theorem file_mode_exit:
  "select_generator ops File None = Exit1 \<and>
   (select_generator ops File (Some g) = Exit1) = (\<not> op_good ops g) \<and>
   outcome (main ops File d w) = Some (Returned 1) \<and>
   trace (main ops File d w) = [EngineSave ''./output/Run.File.N4/tmp.snap''] \<and>
   examples (main ops File d w) = [] \<and>
   disk (main ops File d w) = d(''./output/Run.File.N4/tmp.snap'' \<mapsto> Snap w)"
  by (simp add: main_def project_File select_generator_def outdir_of_def initial_def state_ops)

subsection \<open>The names of the cache artifacts\<close>

lemma digit_char_isdigit: "isdigit (digit_char k)"
proof -
  have "k mod 10 = 0 \<or> k mod 10 = 1 \<or> k mod 10 = 2 \<or> k mod 10 = 3 \<or> k mod 10 = 4 \<or>
    k mod 10 = 5 \<or> k mod 10 = 6 \<or> k mod 10 = 7 \<or> k mod 10 = 8 \<or> k mod 10 = 9"
    by presburger
  then show ?thesis
    unfolding digit_char_def isdigit_def by (elim disjE) simp_all
qed

lemma nat_digits_isdigit: "\<forall>c\<in>set (nat_digits n). isdigit c"
proof (induction n rule: nat_digits.induct)
  case (1 n)
  show ?case
  proof (cases "n < 10")
    case True
    then show ?thesis by (simp add: nat_digits.simps[of n] digit_char_isdigit)
  next
    case False
    with 1 show ?thesis by (simp add: nat_digits.simps[of n] digit_char_isdigit)
  qed
qed

lemma nat_digits_nonempty: "nat_digits n \<noteq> []"
  by (subst nat_digits.simps) simp

lemma strip_tail: "\<forall>c\<in>set ds. isdigit c \<Longrightarrow> regex_replace_N (dropWhile isdigit ds) = []"
proof -
  assume "\<forall>c\<in>set ds. isdigit c"
  then have "dropWhile isdigit ds = []" by simp
  then show ?thesis by (simp only: regex_replace_N.simps)
qed

lemma regex_replace_N_suffix:
  assumes "isdigit d" and "\<forall>c\<in>set ds. isdigit c"
  shows "regex_replace_N (''.N'' @ d # ds) = []"
  using assms by (simp add: regex_dot_def strip_tail)

lemma to_string_digits:
  assumes "0 \<le> Nfilter"
  obtains d ds where "to_string Nfilter = d # ds" "isdigit d" "\<forall>c\<in>set ds. isdigit c"
proof -
  from assms have t: "to_string Nfilter = nat_digits (nat Nfilter)" by (simp add: to_string_def)
  obtain d ds where ds: "nat_digits (nat Nfilter) = d # ds"
    using nat_digits_nonempty[of "nat Nfilter"] by (cases "nat_digits (nat Nfilter)") auto
  with nat_digits_isdigit[of "nat Nfilter"] have "isdigit d" "\<forall>c\<in>set ds. isdigit c" by auto
  with t ds that show thesis by simp
qed

lemma not_digit_e: "\<not> isdigit (CHR ''e'')"
  by (simp add: isdigit_def)

lemma strip_File: "isdigit d \<Longrightarrow> \<forall>c\<in>set ds. isdigit c \<Longrightarrow>
    regex_replace_N (''Run.File.N'' @ d # ds) = ''Run.File''"
  using not_digit_e by (simp add: regex_dot_def strip_tail)

lemma strip_Uniform: "isdigit d \<Longrightarrow> \<forall>c\<in>set ds. isdigit c \<Longrightarrow>
    regex_replace_N (''Run.Uniform.N'' @ d # ds) = ''Run.Uniform''"
  using not_digit_e by (simp add: regex_dot_def strip_tail)

lemma strip_Needle: "isdigit d \<Longrightarrow> \<forall>c\<in>set ds. isdigit c \<Longrightarrow>
    regex_replace_N (''Run.Needle.N'' @ d # ds) = ''Run.Needle''"
  using not_digit_e by (simp add: regex_dot_def strip_tail)

lemma strip_Gaussian: "isdigit d \<Longrightarrow> \<forall>c\<in>set ds. isdigit c \<Longrightarrow>
    regex_replace_N (''Run.Gaussian.N'' @ d # ds) = ''Run.Gaussian''"
  using not_digit_e by (simp add: regex_dot_def strip_tail)

text \<open>
  Claim C6. For a filter count that is not negative, the project identity is a stem
  \<open>Run.<mode>\<close> followed by \<open>.N\<close> and the count, the substitution removes exactly that
  suffix, and the three artifact paths are \<open>output/costMap.\<close>, \<open>output/costMapSparse.\<close>
  and \<open>output/costMapReg.\<close> followed by the stem and \<open>.mat\<close>.
\<close>

theorem cost_map_names:
  assumes "0 \<le> Nfilter" and "project_name mode Nfilter = Some project"
  shows "\<exists>stripped. project = stripped @ ''.N'' @ to_string Nfilter \<and>
           stripped = ''Run.'' @ (case mode of File \<Rightarrow> ''File'' | Uniform \<Rightarrow> ''Uniform''
                                  | Needle \<Rightarrow> ''Needle'' | Gaussian \<Rightarrow> ''Gaussian''
                                  | Unrecognised \<Rightarrow> []) \<and>
           costMapName project = ''output/costMap.'' @ stripped @ ''.mat'' \<and>
           costMapSparseName project = ''output/costMapSparse.'' @ stripped @ ''.mat'' \<and>
           costMapRegName project = ''output/costMapReg.'' @ stripped @ ''.mat''"
proof -
  from assms(1) obtain d ds where t: "to_string Nfilter = d # ds"
    and d: "isdigit d" "\<forall>c\<in>set ds. isdigit c" by (rule to_string_digits)
  show ?thesis
  proof (cases mode)
    case File
    with assms(2) t have p: "project = ''Run.File.N'' @ d # ds" by (simp add: project_name_def)
    show ?thesis unfolding costMapName_def costMapSparseName_def costMapRegName_def
      using strip_File[OF d] by (simp add: p t File)
  next
    case Uniform
    with assms(2) t have p: "project = ''Run.Uniform.N'' @ d # ds" by (simp add: project_name_def)
    show ?thesis unfolding costMapName_def costMapSparseName_def costMapRegName_def
      using strip_Uniform[OF d] by (simp add: p t Uniform)
  next
    case Needle
    with assms(2) t have p: "project = ''Run.Needle.N'' @ d # ds" by (simp add: project_name_def)
    show ?thesis unfolding costMapName_def costMapSparseName_def costMapRegName_def
      using strip_Needle[OF d] by (simp add: p t Needle)
  next
    case Gaussian
    with assms(2) t have p: "project = ''Run.Gaussian.N'' @ d # ds" by (simp add: project_name_def)
    show ?thesis unfolding costMapName_def costMapSparseName_def costMapRegName_def
      using strip_Gaussian[OF d] by (simp add: p t Gaussian)
  next
    case Unrecognised
    with assms(2) show ?thesis by (simp add: project_name_def)
  qed
qed

theorem cost_map_names_witness:
  "project_name File 4 = Some ''Run.File.N4'' \<and>
   costMapName ''Run.File.N4'' = ''output/costMap.Run.File.mat'' \<and>
   costMapSparseName ''Run.File.N4'' = ''output/costMapSparse.Run.File.mat'' \<and>
   costMapRegName ''Run.File.N4'' = ''output/costMapReg.Run.File.mat''"
proof -
  have p: "project_name File 4 = Some ''Run.File.N4''"
    by (simp add: project_name_def to_string_4)
  from cost_map_names [of 4 File "''Run.File.N4''"] p to_string_4
  show ?thesis by simp
qed

subsection \<open>Counted loops\<close>

lemma for_loop_fold: "for_loop i n body s = fold body [i..<n] s"
proof (induction "n - i" arbitrary: i s)
  case 0
  then show ?case by (simp add: for_loop.simps[of i])
next
  case (Suc k)
  then have lt: "i < n" and k: "k = n - (i + 1)" by simp_all
  have "for_loop i n body s = for_loop (i + 1) n body (body i s)"
    using lt by (simp add: for_loop.simps[of i])
  also have "\<dots> = fold body [i + 1..<n] (body i s)"
    using Suc.hyps(1)[OF k] .
  also have "\<dots> = fold body [i..<n] s"
    using lt by (simp add: upt_rec[of i n])
  finally show ?case .
qed

lemma for_loop_fold_fun: "for_loop i n body = fold body [i..<n]"
  by (rule ext) (rule for_loop_fold)

lemma fold_product:
  "fold (\<lambda>i. fold (\<lambda>j. f i j) ys) xs s = fold (\<lambda>(i, j). f i j) (List.product xs ys) s"
proof (induction xs arbitrary: s)
  case Nil
  then show ?case by simp
next
  case (Cons x xs)
  have "fold (\<lambda>(i, j). f i j) (map (Pair x) ys) s = fold (f x) ys s"
    by (simp add: fold_map comp_def)
  with Cons show ?case by simp
qed

lemma nested_for_loop:
  "for_loop 0 n (\<lambda>i. for_loop 0 m (\<lambda>j. f i j)) s =
     fold (\<lambda>(i, j). f i j) (List.product [0..<n] [0..<m]) s"
  by (simp add: for_loop_fold_fun fold_product)

subsection \<open>The orthonormality audit\<close>




lemma audit_cell_trace:
  "trace (audit_cell ops W H i j s) =
     trace s @
     [BasisFunction W H (i mod W) (j div H), BasisFunction W H (i mod W) (j div H),
      HistFill (fill_value (op_overlap ops
        (fst (op_basisFunction ops (wavenet s) W H (i mod W) (j div H)))
        (fst (op_basisFunction ops
               (snd (op_basisFunction ops (wavenet s) W H (i mod W) (j div H)))
               W H (i mod W) (j div H)))))]"
  by (simp add: audit_cell_def emit_def Let_def split: prod.splits)




subsection \<open>The movie\<close>

lemma unsigned_minus_exact:
  assumes "b \<le> a" and "a < 2 ^ 32"
  shows "unsigned_minus a b = a - b"
proof -
  from assms have b: "b mod 2 ^ 32 = b" by simp
  from assms have "a + 2 ^ 32 - b = (a - b) + 2 ^ 32" by simp
  then have "unsigned_minus a b = ((a - b) + 2 ^ 32) mod 2 ^ 32"
    by (simp only: unsigned_minus_def b)
  also have "\<dots> = (a - b) mod 2 ^ 32" by (rule mod_add_self2)
  also have "\<dots> = a - b" using assms by simp
  finally show ?thesis .
qed

lemma skip_iff_not_retained:
  assumes "i < N" and "N < 2 ^ 32"
  shows "(i > 100 \<and> i < unsigned_minus N 100 \<and> i mod 4 > 0) = (\<not> retained N i)"
proof (cases "100 \<le> N")
  case True
  then have "unsigned_minus N 100 = N - 100"
    using assms(2) by (rule unsigned_minus_exact)
  then show ?thesis
    unfolding retained_def by (cases "i = 100") auto
next
  case False
  with assms(1) show ?thesis by (auto simp: retained_def)
qed

lemma basis_calls_fold:
  "outcome (fold (\<lambda>(i, j). basis_call ops W H i j) ps s) = outcome s \<and>
   trace (fold (\<lambda>(i, j). basis_call ops W H i j) ps s) =
     trace s @ map (\<lambda>(i, j). BasisFunction W H i j) ps"
proof (induction ps arbitrary: s)
  case Nil
  then show ?case by simp
next
  case (Cons p ps)
  obtain i j where p: "p = (i, j)" by (cases p)
  have "outcome (basis_call ops W H i j s) = outcome s"
    "trace (basis_call ops W H i j s) = trace s @ [BasisFunction W H i j]"
    by (simp_all add: basis_call_def emit_def split: prod.splits)
  then show ?case using Cons[of "basis_call ops W H i j s"] by (simp add: p)
qed

lemma render_pixels_result:
  "outcome (render_pixels ops W H dx dy s) = outcome s \<and>
   trace (render_pixels ops W H dx dy s) =
     trace s @ map (\<lambda>(i, j). BasisFunction W H i j) (List.product [0..<dx] [0..<dy])"
  unfolding render_pixels_def nested_for_loop by (rule basis_calls_fold)

lemma render_step_at:
  assumes "i < length fl" and "length fl < 2 ^ 32" and "outcome s = None"
    and "trace s = tr" and "f = length (filter (retained (length fl)) [0..<i])"
  shows "\<exists>s'. render_step ops outdir W H (min W 8) (min H 8) fl (length fl) i (s, f) =
           (s', length (filter (retained (length fl)) [0..<Suc i])) \<and>
         outcome s' = None \<and> trace s' = tr @ frame_events outdir W H fl i"
proof -
  have f_le: "f \<le> i" using assms(5) by (metis diff_zero length_filter_le length_upt)
  then have fu: "to_unsigned (f + 1) = f + 1"
    using assms(1,2) by (simp add: to_unsigned_def)
  note sk = skip_iff_not_retained[OF assms(1,2)]
  show ?thesis
  proof (cases "retained (length fl) i")
    case True
    then have "\<not> (i > 100 \<and> i < unsigned_minus (length fl) 100 \<and> i mod 4 > 0)"
      using sk by simp
    then show ?thesis
      using assms True fu render_pixels_result[of ops W H "min W 8" "min H 8"]
      by (simp add: render_step_def vector_at_def frame_events_def canvas_SaveAs_def emit_def
          Let_def)
  next
    case False
    then have "i > 100 \<and> i < unsigned_minus (length fl) 100 \<and> i mod 4 > 0"
      using sk by simp
    then show ?thesis
      using assms False
      by (simp add: render_step_def vector_at_def frame_events_def emit_def Let_def)
  qed
qed

lemma render_prefix:
  assumes "length fl < 2 ^ 32" and "outcome s = None" and "n \<le> length fl"
  shows "\<exists>s'. fold (render_step ops outdir W H (min W 8) (min H 8) fl (length fl)) [0..<n] (s, 0) =
           (s', length (filter (retained (length fl)) [0..<n])) \<and>
         outcome s' = None \<and>
         trace s' = trace s @ concat (map (frame_events outdir W H fl) [0..<n])"
  using assms(3)
proof (induction n)
  case 0
  then show ?case using assms(2) by simp
next
  case (Suc n)
  then obtain s' where
    f: "fold (render_step ops outdir W H (min W 8) (min H 8) fl (length fl)) [0..<n] (s, 0) =
          (s', length (filter (retained (length fl)) [0..<n]))"
    and o: "outcome s' = None"
    and t: "trace s' = trace s @ concat (map (frame_events outdir W H fl) [0..<n])"
    by auto
  from Suc.prems have "n < length fl" by simp
  from render_step_at[OF this assms(1) o t refl, of ops outdir W H]
  obtain s'' where
    "render_step ops outdir W H (min W 8) (min H 8) fl (length fl) n
       (s', length (filter (retained (length fl)) [0..<n])) =
       (s'', length (filter (retained (length fl)) [0..<Suc n]))"
    "outcome s'' = None"
    "trace s'' = (trace s @ concat (map (frame_events outdir W H fl) [0..<n])) @
       frame_events outdir W H fl n"
    by blast
  then show ?case using f by (simp del: filter_append)
qed

lemma saved_pictures_append: "saved_pictures (a @ b) = saved_pictures a @ saved_pictures b"
  by (induction a rule: saved_pictures.induct) auto

lemma saved_pictures_calls: "saved_pictures (map (\<lambda>(x, y). BasisFunction W H x y) ps) = []"
  by (induction ps) auto

lemma saved_frames:
  "saved_pictures (concat (map (frame_events outdir W H fl) [0..<n])) =
     map (frame_file outdir) [0..<length (filter (retained (length fl)) [0..<n])]"
  by (induction n) (simp_all add: saved_pictures_append saved_pictures_calls frame_events_def)

text \<open>
  Claim C4. For a filter log \<open>fl\<close> of fewer than \<open>2\<^sup>3\<^sup>2\<close> states the movie loop does not
  throw and handles the states in the order of the log: each state is made the engine's
  filter, and each retained state (among the first hundred, among the last hundred, or
  with an index that is a multiple of four) has every pixel of the
  \<open>min W 8 \<times> min H 8\<close> neighbourhood synthesized and its frame saved. The frames saved
  are numbered \<open>0, 1, \<dots>, K - 1\<close>, where \<open>K\<close> is the number of retained states.
\<close>

theorem movie_frames:
  assumes "length (op_filterLog ops (wavenet s)) < 2 ^ 32" and "outcome s = None"
  shows "outcome (render ops outdir W H s) = None \<and>
         trace (render ops outdir W H s) =
           trace s @ concat (map (frame_events outdir W H (op_filterLog ops (wavenet s)))
                              [0..<length (op_filterLog ops (wavenet s))]) \<and>
         saved_pictures (concat (map (frame_events outdir W H (op_filterLog ops (wavenet s)))
                                  [0..<length (op_filterLog ops (wavenet s))])) =
           map (frame_file outdir)
             [0..<length (filter (retained (length (op_filterLog ops (wavenet s))))
                           [0..<length (op_filterLog ops (wavenet s))])]"
proof -
  let ?fl = "op_filterLog ops (wavenet s)"
  have u: "to_unsigned (length ?fl) = length ?fl"
    using assms(1) by (simp add: to_unsigned_def)
  from render_prefix[OF assms(1,2) le_refl, of ops outdir W H]
  obtain s' where
    "fold (render_step ops outdir W H (min W 8) (min H 8) ?fl (length ?fl)) [0..<length ?fl] (s, 0) =
       (s', length (filter (retained (length ?fl)) [0..<length ?fl]))"
    "outcome s' = None"
    "trace s' = trace s @ concat (map (frame_events outdir W H ?fl) [0..<length ?fl])"
    by blast
  then have "outcome (render ops outdir W H s) = None"
    "trace (render ops outdir W H s) =
       trace s @ concat (map (frame_events outdir W H ?fl) [0..<length ?fl])"
    by (simp_all add: render_def Let_def u for_loop_fold)
  then show ?thesis using saved_frames[of outdir W H ?fl "length ?fl"] by simp
qed

theorem movie_frames_witness:
  "trace (render demo_ops ''o/'' 1 1 (initial empty_disk ([[1, 2], [3, 4]], []) 5)) =
     [SetFilter [1, 2], BasisFunction 1 1 0 0, CanvasSaveAs ''o/movie/bestBasis_000000.png'',
      SetFilter [3, 4], BasisFunction 1 1 0 0, CanvasSaveAs ''o/movie/bestBasis_000001.png''] \<and>
   outcome (render demo_ops ''o/'' 1 1 (initial empty_disk ([[1, 2], [3, 4]], []) 5)) = None \<and>
   \<not> retained 203 101 \<and> retained 203 104 \<and> retained 203 103"
proof -
  have fl: "op_filterLog demo_ops (wavenet (initial empty_disk ([[1, 2], [3, 4]], []) 5)) =
      [[1, 2], [3, 4]]"
    by (simp add: demo_ops_def initial_def)
  have h: "length (op_filterLog demo_ops (wavenet (initial empty_disk ([[1, 2], [3, 4]], []) 5)))
      < 2 ^ 32" "outcome (initial empty_disk ([[1, 2], [3, 4]], []) 5) = None"
    by (simp_all add: fl) (simp add: initial_def)
  have r: "replicate 5 (CHR ''0'') = ''00000''"
    by (simp add: eval_nat_numeral)
  have n: "pad6 0 = ''000000''" "pad6 1 = ''000001''"
    by (simp_all add: pad6_def nat_digits.simps digit_char_def r)
  from n(2) have n': "pad6 (Suc 0) = ''000001''" by simp
  have t: "trace (initial empty_disk ([[1, 2], [3, 4]], []) 5) = []"
    by (simp add: initial_def)
  have u: "[0..<2] = [0, 1]" by (simp add: upt_rec)
  note m = movie_frames [OF h, of "''o/''" 1 1]
  have "trace (render demo_ops ''o/'' 1 1 (initial empty_disk ([[1, 2], [3, 4]], []) 5)) =
     [SetFilter [1, 2], BasisFunction 1 1 0 0, CanvasSaveAs ''o/movie/bestBasis_000000.png'',
      SetFilter [3, 4], BasisFunction 1 1 0 0, CanvasSaveAs ''o/movie/bestBasis_000001.png'']"
    unfolding m [THEN conjunct2, THEN conjunct1] fl t
    by (simp add: u frame_events_def retained_def frame_file_def n n')
  moreover note m [THEN conjunct1]
  moreover have "\<not> retained 203 101 \<and> retained 203 104 \<and> retained 203 103"
    by (simp add: retained_def)
  ultimately show ?thesis by (intro conjI) simp_all
qed

subsection \<open>The snapshot scan\<close>

lemma size_minus_exact:
  assumes "b \<le> a" and "a < 2 ^ 64"
  shows "size_minus a b = a - b"
proof -
  from assms have b: "b mod 2 ^ 64 = b" by simp
  from assms have "a + 2 ^ 64 - b = (a - b) + 2 ^ 64" by simp
  then have "size_minus a b = ((a - b) + 2 ^ 64) mod 2 ^ 64"
    by (simp only: size_minus_def b)
  also have "\<dots> = (a - b) mod 2 ^ 64" by (rule mod_add_self2)
  also have "\<dots> = a - b" using assms by simp
  finally show ?thesis .
qed

lemma size_minus_wraps:
  assumes "a < b" and "b < 2 ^ 64"
  shows "size_minus a b = a + 2 ^ 64 - b"
proof -
  from assms have b: "b mod 2 ^ 64 = b" by simp
  from assms have "a + 2 ^ 64 - b < 2 ^ 64" by simp
  then show ?thesis by (simp only: size_minus_def b mod_less)
qed

lemma short_cost_log_out_of_range:
  assumes "length costLog < 2"
  shows "vector_at costLog (size_minus (length costLog) 2) = Inl OutOfRange"
proof -
  have "size_minus (length costLog) 2 = length costLog + 2 ^ 64 - 2"
    using assms by (intro size_minus_wraps) simp_all
  then show ?thesis using assms by (simp add: vector_at_def)
qed

lemma scan_body_disk: "disk (scan_body ops pattern s) = disk s"
  by (simp add: scan_body_def Let_def throw_def engine_load_def emit_def
      split: sum.splits)

lemma scan_body_trace:
  "trace (scan_body ops pattern s) = trace s @ [EngineLoad (snapshot_file pattern (snap s))]"
  by (simp add: scan_body_def Let_def throw_def engine_load_def emit_def
      split: sum.splits)

lemma scan_body_wavenet:
  "wavenet (scan_body ops pattern s) =
     op_load ops (wavenet s) (disk s (snapshot_file pattern (snap s)))"
  by (simp add: scan_body_def Let_def throw_def engine_load_def emit_def
      split: sum.splits)

lemma scan_body_lengths:
  "length (costGraphs (scan_body ops pattern s)) = length (costGraphs s) \<and>
   length (filterGraphs (scan_body ops pattern s)) = length (filterGraphs s)"
  by (auto simp: scan_body_def Let_def throw_def engine_load_def emit_def
      vector_at_put_def split: sum.splits if_splits)

lemma scan_body_running:
  "outcome (scan_body ops pattern s) = None \<Longrightarrow>
     snap (scan_body ops pattern s) = Suc (snap s) \<and> outcome s = None"
  by (auto simp: scan_body_def Let_def throw_def engine_load_def emit_def
      split: sum.splits if_splits)

lemma scan_body_short:
  assumes "length (op_costLog ops (op_load ops (wavenet s)
             (disk s (snapshot_file pattern (snap s))))) < 2"
  shows "outcome (scan_body ops pattern s) = Some (Threw OutOfRange)"
  using short_cost_log_out_of_range[OF assms]
  by (auto simp: scan_body_def Let_def throw_def engine_load_def emit_def
      vector_at_put_def split: sum.splits if_splits)

lemma scan_loop_stop:
  assumes "\<not> (snapshot_exists pattern s \<and> snap s \<le> M)"
  shows "scan_loop ops pattern M s = s"
  using assms by (subst scan_loop.simps) (rule if_not_P)

lemma scan_loop_unfold:
  assumes "snapshot_exists pattern s \<and> snap s \<le> M"
  shows "scan_loop ops pattern M s =
           (let s' = scan_body ops pattern s
            in if outcome s' = None then scan_loop ops pattern M s' else s')"
  using assms by (subst scan_loop.simps) (rule if_P)

lemma scan_loop_throw:
  "snapshot_exists pattern s \<and> snap s \<le> M \<Longrightarrow> outcome (scan_body ops pattern s) \<noteq> None \<Longrightarrow>
     scan_loop ops pattern M s = scan_body ops pattern s"
  by (subst scan_loop_unfold, assumption) (simp only: Let_def if_False)

lemma scan_loop_step:
  "snapshot_exists pattern s \<and> snap s \<le> M \<Longrightarrow> outcome (scan_body ops pattern s) = None \<Longrightarrow>
     scan_loop ops pattern M s = scan_loop ops pattern M (scan_body ops pattern s)"
  by (subst scan_loop_unfold, assumption) (simp only: Let_def if_True simp_thms)

lemma scanned_from_stop:
  assumes "\<not> (d (snapshot_file pattern n) \<noteq> None \<and> n \<le> M)"
  shows "scanned_from d pattern n M = 0"
proof (cases "n \<le> M")
  case True
  then have "[n..<Suc M] = n # [Suc n..<Suc M]" by (simp add: upt_conv_Cons del: upt_Suc)
  with assms True show ?thesis by (simp add: scanned_from_def del: upt_Suc)
next
  case False
  then show ?thesis by (simp add: scanned_from_def)
qed

lemma scanned_from_step:
  assumes "d (snapshot_file pattern n) \<noteq> None \<and> n \<le> M"
  shows "scanned_from d pattern n M = Suc (scanned_from d pattern (Suc n) M)"
proof -
  from assms have "[n..<Suc M] = n # [Suc n..<Suc M]" by (simp add: upt_conv_Cons del: upt_Suc)
  with assms show ?thesis by (simp add: scanned_from_def del: upt_Suc)
qed

lemma scan_loop_loads:
  "\<exists>j. j \<le> scanned_from (disk s) pattern (snap s) M \<and>
        trace (scan_loop ops pattern M s) =
          trace s @ map (\<lambda>n. EngineLoad (snapshot_file pattern n)) [snap s..<snap s + j] \<and>
        disk (scan_loop ops pattern M s) = disk s \<and>
        (outcome (scan_loop ops pattern M s) = None \<longrightarrow>
           j = scanned_from (disk s) pattern (snap s) M \<and>
           snap (scan_loop ops pattern M s) = snap s + j)"
proof (induction ops pattern M s rule: scan_loop.induct)
  case (1 ops pattern M s)
  show ?case
  proof (cases "snapshot_exists pattern s \<and> snap s \<le> M")
    case False
    then have "scanned_from (disk s) pattern (snap s) M = 0"
      by (intro scanned_from_stop) (simp add: snapshot_exists_def fileExists_def)
    with False show ?thesis by (simp add: scan_loop_stop)
  next
    case True
    then have lead: "scanned_from (disk s) pattern (snap s) M =
        Suc (scanned_from (disk s) pattern (Suc (snap s)) M)"
      by (intro scanned_from_step) (simp add: snapshot_exists_def fileExists_def)
    let ?s' = "scan_body ops pattern s"
    show ?thesis
    proof (cases "outcome ?s' = None")
      case False
      with True have eq: "scan_loop ops pattern M s = ?s'" by (rule scan_loop_throw)
      have a: "(1::nat) \<le> scanned_from (disk s) pattern (snap s) M" using lead by simp
      have b: "trace ?s' = trace s @
          map (\<lambda>n. EngineLoad (snapshot_file pattern n)) [snap s..<snap s + 1]"
        by (simp add: scan_body_trace)
      have c: "disk ?s' = disk s" by (rule scan_body_disk)
      show ?thesis unfolding eq
      proof (intro exI[of _ "1::nat"] conjI impI)
        show "1 \<le> scanned_from (disk s) pattern (snap s) M" by (rule a)
        show "trace ?s' = trace s @
          map (\<lambda>n. EngineLoad (snapshot_file pattern n)) [snap s..<snap s + 1]" by (rule b)
        show "disk ?s' = disk s" by (rule c)
      next
        assume "outcome ?s' = None"
        with False show "1 = scanned_from (disk s) pattern (snap s) M" by blast
      next
        assume "outcome ?s' = None"
        with False show "snap ?s' = snap s + 1" by blast
      qed
    next
      case running: True
      with True have eq: "scan_loop ops pattern M s = scan_loop ops pattern M ?s'"
        by (rule scan_loop_step)
      from running have sn: "snap ?s' = Suc (snap s)" by (simp add: scan_body_running)
      from "1.IH"[OF True refl running]
      obtain j where all: "j \<le> scanned_from (disk ?s') pattern (snap ?s') M \<and>
        trace (scan_loop ops pattern M ?s') =
          trace ?s' @ map (\<lambda>n. EngineLoad (snapshot_file pattern n)) [snap ?s'..<snap ?s' + j] \<and>
        disk (scan_loop ops pattern M ?s') = disk ?s' \<and>
        (outcome (scan_loop ops pattern M ?s') = None \<longrightarrow>
           j = scanned_from (disk ?s') pattern (snap ?s') M \<and>
           snap (scan_loop ops pattern M ?s') = snap ?s' + j)" ..
      note j = all[THEN conjunct1]
      note t = all[THEN conjunct2, THEN conjunct1]
      note d = all[THEN conjunct2, THEN conjunct2, THEN conjunct1]
      note o = all[THEN conjunct2, THEN conjunct2, THEN conjunct2]
      have u: "[snap s..<snap s + Suc j] = snap s # [Suc (snap s)..<Suc (snap s) + j]"
        by (simp add: upt_conv_Cons del: upt_Suc)
      show ?thesis unfolding eq
      proof (intro exI[of _ "Suc j"] conjI impI)
        show "Suc j \<le> scanned_from (disk s) pattern (snap s) M"
          using j unfolding sn scan_body_disk lead by simp
        show "trace (scan_loop ops pattern M ?s') = trace s @
          map (\<lambda>n. EngineLoad (snapshot_file pattern n)) [snap s..<snap s + Suc j]"
          using t unfolding sn scan_body_trace u by simp
        show "disk (scan_loop ops pattern M ?s') = disk s"
          using d unfolding scan_body_disk .
      next
        assume "outcome (scan_loop ops pattern M ?s') = None"
        with o have "j = scanned_from (disk ?s') pattern (snap ?s') M" by (elim impE conjE)
        then show "Suc j = scanned_from (disk s) pattern (snap s) M"
          unfolding sn scan_body_disk lead by simp
      next
        assume "outcome (scan_loop ops pattern M ?s') = None"
        with o have "snap (scan_loop ops pattern M ?s') = snap ?s' + j" by (elim impE conjE)
        then show "snap (scan_loop ops pattern M ?s') = snap s + Suc j"
          unfolding sn by simp
      qed
    qed
  qed
qed



lemma pad6_small:
  "pad6 1 = ''000001''" "pad6 2 = ''000002''" "pad6 3 = ''000003''" "pad6 4 = ''000004''"
  "pad6 5 = ''000005''" "pad6 (Suc 0) = ''000001''"
proof -
  have r: "replicate 5 (CHR ''0'') = ''00000''" by (simp add: eval_nat_numeral)
  show "pad6 1 = ''000001''" "pad6 2 = ''000002''" "pad6 3 = ''000003''" "pad6 4 = ''000004''"
    "pad6 5 = ''000005''" "pad6 (Suc 0) = ''000001''"
    by (simp_all add: pad6_def nat_digits.simps digit_char_def r)
qed

lemma Needle_pattern:
  "pattern_of ''Run.Needle.N4'' =
     ''./output/Run.Needle.N4/snapshots/Run.Needle.N4.%06u.snap''"
  by (simp add: pattern_of_def outdir_of_def)

lemma Needle_snapshot_file:
  "snapshot_file (pattern_of ''Run.Needle.N4'') n =
     ''./output/Run.Needle.N4/snapshots/Run.Needle.N4.'' @ pad6 n @ ''.snap''"
  by (simp add: Needle_pattern)

lemma Needle_files:
  "snapshot_file (pattern_of ''Run.Needle.N4'') 1 =
     ''./output/Run.Needle.N4/snapshots/Run.Needle.N4.000001.snap''"
  "snapshot_file (pattern_of ''Run.Needle.N4'') 2 =
     ''./output/Run.Needle.N4/snapshots/Run.Needle.N4.000002.snap''"
  "snapshot_file (pattern_of ''Run.Needle.N4'') 3 =
     ''./output/Run.Needle.N4/snapshots/Run.Needle.N4.000003.snap''"
  "snapshot_file (pattern_of ''Run.Needle.N4'') 4 =
     ''./output/Run.Needle.N4/snapshots/Run.Needle.N4.000004.snap''"
  "snapshot_file (pattern_of ''Run.Needle.N4'') 5 =
     ''./output/Run.Needle.N4/snapshots/Run.Needle.N4.000005.snap''"
  "snapshot_file (pattern_of ''Run.Needle.N4'') (Suc 0) =
     ''./output/Run.Needle.N4/snapshots/Run.Needle.N4.000001.snap''"
  unfolding Needle_snapshot_file pad6_small by simp_all

lemma upt_1_6: "[1..<Suc 5] = [1, 2, 3, 4, 5]"
  by (simp add: upt_rec)

lemma scanned_gap_disk: "scanned gap_disk (pattern_of ''Run.Needle.N4'') 5 = 2"
  unfolding scanned_def scanned_from_def upt_1_6
  by (simp add: Needle_files gap_disk_def)



lemma engine_from_shift:
  "engine_from ops pattern d (op_load ops w (d (snapshot_file pattern a))) (Suc a) k =
     engine_from ops pattern d w a (Suc k)"
  by (induction k) simp_all


lemma to_unsigned_le: "to_unsigned n \<le> n"
  by (simp add: to_unsigned_def)




lemma scanned_three_snapshots: "scanned three_snapshots (pattern_of ''Run.Needle.N4'') 5 = 3"
  unfolding scanned_def scanned_from_def upt_1_6
  by (simp add: Needle_files three_snapshots_def)

lemma demo_ops_simps:
  "op_costLog demo_ops e = snd e"
  "op_filterLog demo_ops e = fst e"
  "op_load demo_ops e (Some (Snap e')) = e'"
  "op_load demo_ops e None = e"
  "op_setFilter demo_ops e f = e"
  "op_basisFunction demo_ops e a b c d = (c + d, e)"
  by (simp_all add: demo_ops_def)

lemma demo_engine_at:
  "0 < n \<Longrightarrow> d (snapshot_file pattern n) = Some (Snap e) \<Longrightarrow>
     engine_at demo_ops pattern d w n = e"
  by (cases n) (simp_all add: engine_at_def demo_ops_simps)

lemma engine_at_three_snapshots:
  "engine_at demo_ops (pattern_of ''Run.Needle.N4'') three_snapshots demo_engine 1 =
     ([[1, 0], [0.5, 0.5]], [0.7, 0.4, 0.05])"
  "engine_at demo_ops (pattern_of ''Run.Needle.N4'') three_snapshots demo_engine 2 =
     ([[0, 1]], [0.3, 0.01])"
  "engine_at demo_ops (pattern_of ''Run.Needle.N4'') three_snapshots demo_engine 3 =
     ([[0, 1], [1, 1]], [0.6, 0.5, 0.1, 0.9])"
  "engine_at demo_ops (pattern_of ''Run.Needle.N4'') three_snapshots demo_engine (Suc 0) =
     ([[1, 0], [0.5, 0.5]], [0.7, 0.4, 0.05])"
proof -
  have f: "three_snapshots (snapshot_file (pattern_of ''Run.Needle.N4'') 1) =
      Some (Snap ([[1, 0], [0.5, 0.5]], [0.7, 0.4, 0.05]))"
    "three_snapshots (snapshot_file (pattern_of ''Run.Needle.N4'') 2) =
      Some (Snap ([[0, 1]], [0.3, 0.01]))"
    "three_snapshots (snapshot_file (pattern_of ''Run.Needle.N4'') 3) =
      Some (Snap ([[0, 1], [1, 1]], [0.6, 0.5, 0.1, 0.9]))"
    unfolding Needle_files by (simp_all add: three_snapshots_def)
  show "engine_at demo_ops (pattern_of ''Run.Needle.N4'') three_snapshots demo_engine 1 =
     ([[1, 0], [0.5, 0.5]], [0.7, 0.4, 0.05])"
    using f(1) by (intro demo_engine_at) simp_all
  then show "engine_at demo_ops (pattern_of ''Run.Needle.N4'') three_snapshots demo_engine
      (Suc 0) = ([[1, 0], [0.5, 0.5]], [0.7, 0.4, 0.05])"
    by simp
  show "engine_at demo_ops (pattern_of ''Run.Needle.N4'') three_snapshots demo_engine 2 =
     ([[0, 1]], [0.3, 0.01])"
    using f(2) by (intro demo_engine_at) simp_all
  show "engine_at demo_ops (pattern_of ''Run.Needle.N4'') three_snapshots demo_engine 3 =
     ([[0, 1], [1, 1]], [0.6, 0.5, 0.1, 0.9])"
    using f(3) by (intro demo_engine_at) simp_all
qed


subsection \<open>The best run\<close>

lemma cost_from_shift:
  "cost_from ops pattern d (op_load ops w (d (snapshot_file pattern a))) (Suc a) k =
     cost_from ops pattern d w a (Suc k)"
  unfolding cost_from_def engine_from_shift ..

lemma cost_of_cost_from: "cost_of ops pattern d w (Suc k) = cost_from ops pattern d w 1 k"
  by (simp add: cost_of_def cost_from_def engine_at_def)

lemma scan_body_best:
  assumes run: "outcome (scan_body ops pattern s) = None"
    and len: "length (op_costLog ops (op_load ops (wavenet s)
               (disk s (snapshot_file pattern (snap s))))) < 2 ^ 64"
  shows "(second_to_last (op_costLog ops (op_load ops (wavenet s)
            (disk s (snapshot_file pattern (snap s))))) < minCost s \<longrightarrow>
          bestBasis (scan_body ops pattern s) = snap s - 1 \<and>
          minCost (scan_body ops pattern s) =
            second_to_last (op_costLog ops (op_load ops (wavenet s)
              (disk s (snapshot_file pattern (snap s)))))) \<and>
         (\<not> second_to_last (op_costLog ops (op_load ops (wavenet s)
              (disk s (snapshot_file pattern (snap s))))) < minCost s \<longrightarrow>
          bestBasis (scan_body ops pattern s) = bestBasis s \<and>
          minCost (scan_body ops pattern s) = minCost s)"
proof -
  let ?cl = "op_costLog ops (op_load ops (wavenet s) (disk s (snapshot_file pattern (snap s))))"
  have two: "2 \<le> length ?cl"
  proof (rule ccontr)
    assume "\<not> 2 \<le> length ?cl"
    then have "length ?cl < 2" by simp
    then have "outcome (scan_body ops pattern s) = Some (Threw OutOfRange)"
      by (rule scan_body_short)
    with run show False by simp
  qed
  have c: "size_minus (length ?cl) 2 = length ?cl - 2"
    using two len by (intro size_minus_exact) simp_all
  have at: "vector_at ?cl (length ?cl - 2) = Inr (second_to_last ?cl)"
    using two by (simp add: vector_at_def second_to_last_def)
  show ?thesis
    using run
    by (auto simp: scan_body_def Let_def throw_def engine_load_def emit_def c at
        split: sum.splits if_splits)
qed

lemma running_min_step:
  fixes c :: "nat \<Rightarrow> real" and m0 m1 m' :: real and a b0 b1 b' K :: nat
  assumes a: "1 \<le> a"
    and upd: "c 0 < m0 \<longrightarrow> b1 = a - 1 \<and> m1 = c 0"
    and keep: "\<not> c 0 < m0 \<longrightarrow> b1 = b0 \<and> m1 = m0"
    and i1: "m' \<le> m1"
    and i2: "\<forall>k<K. m' \<le> c (Suc k)"
    and i3: "(b' = b1 \<and> m' = m1) \<or>
             (\<exists>k<K. b' = Suc a - 1 + k \<and> m' = c (Suc k) \<and> c (Suc k) < m1 \<and>
                    (\<forall>k'<k. c (Suc k) < c (Suc k')))"
  shows "m' \<le> m0 \<and> (\<forall>k<Suc K. m' \<le> c k) \<and>
         ((b' = b0 \<and> m' = m0) \<or>
          (\<exists>k<Suc K. b' = a - 1 + k \<and> m' = c k \<and> c k < m0 \<and> (\<forall>k'<k. c k < c k')))"
proof -
  have m1: "m1 \<le> m0" "m1 \<le> c 0" using upd keep by (cases "c 0 < m0"; simp)+
  have g1: "m' \<le> m0" using i1 m1 by simp
  have g2: "\<forall>k<Suc K. m' \<le> c k"
  proof (intro allI impI)
    fix k assume "k < Suc K"
    then show "m' \<le> c k" using i1 i2 m1 by (cases k) auto
  qed
  from i3 have g3: "(b' = b0 \<and> m' = m0) \<or>
          (\<exists>k<Suc K. b' = a - 1 + k \<and> m' = c k \<and> c k < m0 \<and> (\<forall>k'<k. c k < c k'))"
  proof
    assume u: "b' = b1 \<and> m' = m1"
    show ?thesis
    proof (cases "c 0 < m0")
      case True
      with upd u have "b' = a - 1 + 0 \<and> m' = c 0 \<and> c 0 < m0 \<and> (\<forall>k'<0. c 0 < c k')"
        by simp
      then show ?thesis by (intro disjI2 exI[of _ 0]) simp
    next
      case False
      with keep u show ?thesis by simp
    qed
  next
    assume "\<exists>k<K. b' = Suc a - 1 + k \<and> m' = c (Suc k) \<and> c (Suc k) < m1 \<and>
                    (\<forall>k'<k. c (Suc k) < c (Suc k'))"
    then obtain k where k: "k < K" "b' = Suc a - 1 + k" "m' = c (Suc k)" "c (Suc k) < m1"
      "\<forall>k'<k. c (Suc k) < c (Suc k')" by auto
    have e: "\<forall>k'<Suc k. c (Suc k) < c k'"
    proof (intro allI impI)
      fix k' assume "k' < Suc k"
      then show "c (Suc k) < c k'" using k(4,5) m1(2) by (cases k') auto
    qed
    have "Suc k < Suc K \<and> b' = a - 1 + Suc k \<and> m' = c (Suc k) \<and> c (Suc k) < m0 \<and>
        (\<forall>k'<Suc k. c (Suc k) < c k')"
      using k a m1(1) e by auto
    then show ?thesis by (intro disjI2 exI[of _ "Suc k"])
  qed
  from g1 g2 g3 show ?thesis by (intro conjI)
qed

lemma scan_loop_best:
  "1 \<le> snap s \<Longrightarrow> outcome (scan_loop ops pattern M s) = None \<Longrightarrow>
   \<forall>k < scanned_from (disk s) pattern (snap s) M.
      length (op_costLog ops (engine_from ops pattern (disk s) (wavenet s) (snap s) (Suc k)))
        < 2 ^ 64 \<Longrightarrow>
   minCost (scan_loop ops pattern M s) \<le> minCost s \<and>
   (\<forall>k < scanned_from (disk s) pattern (snap s) M.
      minCost (scan_loop ops pattern M s) \<le> cost_from ops pattern (disk s) (wavenet s) (snap s) k) \<and>
   ((bestBasis (scan_loop ops pattern M s) = bestBasis s \<and>
     minCost (scan_loop ops pattern M s) = minCost s) \<or>
    (\<exists>k < scanned_from (disk s) pattern (snap s) M.
       bestBasis (scan_loop ops pattern M s) = snap s - 1 + k \<and>
       minCost (scan_loop ops pattern M s) = cost_from ops pattern (disk s) (wavenet s) (snap s) k \<and>
       cost_from ops pattern (disk s) (wavenet s) (snap s) k < minCost s \<and>
       (\<forall>k'<k. cost_from ops pattern (disk s) (wavenet s) (snap s) k
                 < cost_from ops pattern (disk s) (wavenet s) (snap s) k')))"
proof (induction ops pattern M s rule: scan_loop.induct)
  case (1 ops pattern M s)
  show ?case
  proof (cases "snapshot_exists pattern s \<and> snap s \<le> M")
    case False
    then have st: "scan_loop ops pattern M s = s" by (rule scan_loop_stop)
    from False have "scanned_from (disk s) pattern (snap s) M = 0"
      by (intro scanned_from_stop) (simp add: snapshot_exists_def fileExists_def)
    then show ?thesis unfolding st by simp
  next
    case True
    then have lead: "scanned_from (disk s) pattern (snap s) M =
        Suc (scanned_from (disk s) pattern (Suc (snap s)) M)"
      by (intro scanned_from_step) (simp add: snapshot_exists_def fileExists_def)
    let ?s' = "scan_body ops pattern s"
    let ?w = "op_load ops (wavenet s) (disk s (snapshot_file pattern (snap s)))"
    have running: "outcome ?s' = None"
    proof (rule ccontr)
      assume n: "outcome ?s' \<noteq> None"
      with True have "scan_loop ops pattern M s = ?s'" by (rule scan_loop_throw)
      with "1.prems"(2) n show False by simp
    qed
    with True have eq: "scan_loop ops pattern M s = scan_loop ops pattern M ?s'"
      by (rule scan_loop_step)
    from running have sn: "snap ?s' = Suc (snap s)" by (simp add: scan_body_running)
    have len0: "length (op_costLog ops ?w) < 2 ^ 64"
      using "1.prems"(3)[rule_format, of 0] lead by simp
    note body = scan_body_best[OF running len0]
    have c0: "cost_from ops pattern (disk s) (wavenet s) (snap s) 0 =
        second_to_last (op_costLog ops ?w)"
      by (simp add: cost_from_def)
    have rest: "\<forall>k < scanned_from (disk ?s') pattern (snap ?s') M.
        length (op_costLog ops
          (engine_from ops pattern (disk ?s') (wavenet ?s') (snap ?s') (Suc k))) < 2 ^ 64"
    proof (intro allI impI)
      fix k assume "k < scanned_from (disk ?s') pattern (snap ?s') M"
      then have "Suc k < scanned_from (disk s) pattern (snap s) M"
        unfolding sn scan_body_disk lead by simp
      from "1.prems"(3)[rule_format, OF this]
      show "length (op_costLog ops
          (engine_from ops pattern (disk ?s') (wavenet ?s') (snap ?s') (Suc k))) < 2 ^ 64"
        unfolding sn scan_body_disk scan_body_wavenet engine_from_shift .
    qed
    have one: "1 \<le> snap ?s'" unfolding sn by simp
    have fin: "outcome (scan_loop ops pattern M ?s') = None"
      using "1.prems"(2) unfolding eq .
    note ih = "1.IH"[OF True refl running one fin rest,
        unfolded sn scan_body_disk scan_body_wavenet cost_from_shift]
    show ?thesis
      unfolding eq lead
    proof (rule running_min_step[where ?b1.0 = "bestBasis ?s'" and ?m1.0 = "minCost ?s'"])
      show "1 \<le> snap s" by (rule "1.prems"(1))
      show "cost_from ops pattern (disk s) (wavenet s) (snap s) 0 < minCost s \<longrightarrow>
          bestBasis ?s' = snap s - 1 \<and>
          minCost ?s' = cost_from ops pattern (disk s) (wavenet s) (snap s) 0"
        unfolding c0 by (rule body[THEN conjunct1])
      show "\<not> cost_from ops pattern (disk s) (wavenet s) (snap s) 0 < minCost s \<longrightarrow>
          bestBasis ?s' = bestBasis s \<and> minCost ?s' = minCost s"
        unfolding c0 by (rule body[THEN conjunct2])
      show "minCost (scan_loop ops pattern M ?s') \<le> minCost ?s'"
        by (rule ih[THEN conjunct1])
      show "\<forall>k<scanned_from (disk s) pattern (Suc (snap s)) M.
          minCost (scan_loop ops pattern M ?s')
            \<le> cost_from ops pattern (disk s) (wavenet s) (snap s) (Suc k)"
        by (rule ih[THEN conjunct2, THEN conjunct1])
      show "(bestBasis (scan_loop ops pattern M ?s') = bestBasis ?s' \<and>
           minCost (scan_loop ops pattern M ?s') = minCost ?s') \<or>
          (\<exists>k<scanned_from (disk s) pattern (Suc (snap s)) M.
             bestBasis (scan_loop ops pattern M ?s') = Suc (snap s) - 1 + k \<and>
             minCost (scan_loop ops pattern M ?s') =
               cost_from ops pattern (disk s) (wavenet s) (snap s) (Suc k) \<and>
             cost_from ops pattern (disk s) (wavenet s) (snap s) (Suc k) < minCost ?s' \<and>
             (\<forall>k'<k. cost_from ops pattern (disk s) (wavenet s) (snap s) (Suc k)
                       < cost_from ops pattern (disk s) (wavenet s) (snap s) (Suc k')))"
        by (rule ih[THEN conjunct2, THEN conjunct2])
    qed
  qed
qed

lemma scan_best_run:
  assumes s1: "snap s = 1" and m0: "minCost s = 99999" and b0: "bestBasis s = 0"
    and fin: "outcome (scan ops pattern M s) = None"
    and lens: "\<forall>n. 1 \<le> n \<and> n \<le> scanned (disk s) pattern M \<longrightarrow>
       length (op_costLog ops (engine_at ops pattern (disk s) (wavenet s) n)) < 2 ^ 64"
  shows "((\<exists>n. 1 \<le> n \<and> n \<le> scanned (disk s) pattern M \<and>
             cost_of ops pattern (disk s) (wavenet s) n < 99999) \<longrightarrow>
          bestBasis (scan ops pattern M s) + 1 \<le> scanned (disk s) pattern M \<and>
          (\<forall>n. 1 \<le> n \<and> n \<le> scanned (disk s) pattern M \<longrightarrow>
             cost_of ops pattern (disk s) (wavenet s) (bestBasis (scan ops pattern M s) + 1)
               \<le> cost_of ops pattern (disk s) (wavenet s) n) \<and>
          (\<forall>n. 1 \<le> n \<and> n < bestBasis (scan ops pattern M s) + 1 \<longrightarrow>
             cost_of ops pattern (disk s) (wavenet s) (bestBasis (scan ops pattern M s) + 1)
               < cost_of ops pattern (disk s) (wavenet s) n)) \<and>
         ((\<forall>n. 1 \<le> n \<and> n \<le> scanned (disk s) pattern M \<longrightarrow>
             99999 \<le> cost_of ops pattern (disk s) (wavenet s) n) \<longrightarrow>
          bestBasis (scan ops pattern M s) = 0)"
proof -
  define K where "K = scanned (disk s) pattern M"
  define c where "c = cost_of ops pattern (disk s) (wavenet s)"
  define b where "b = bestBasis (scan ops pattern M s)"
  define m where "m = minCost (scan ops pattern M s)"
  have cf: "cost_from ops pattern (disk s) (wavenet s) 1 k = c (Suc k)" for k
    by (simp add: c_def cost_of_cost_from)
  have l: "\<forall>k < scanned_from (disk s) pattern (snap s) M.
      length (op_costLog ops (engine_from ops pattern (disk s) (wavenet s) (snap s) (Suc k)))
        < 2 ^ 64"
  proof (intro allI impI)
    fix k assume "k < scanned_from (disk s) pattern (snap s) M"
    then have "1 \<le> Suc k \<and> Suc k \<le> scanned (disk s) pattern M"
      unfolding s1 scanned_def by simp
    from lens[rule_format, OF this]
    show "length (op_costLog ops (engine_from ops pattern (disk s) (wavenet s) (snap s) (Suc k)))
        < 2 ^ 64"
      unfolding s1 engine_at_def .
  qed
  have one: "1 \<le> snap s" using s1 by simp
  have f: "outcome (scan_loop ops pattern M s) = None" using fin by (simp add: scan_def)
  note r = scan_loop_best[OF one f l, folded scan_def, unfolded s1 m0 b0 cf,
      folded scanned_def, folded K_def b_def m_def]
  have all: "\<forall>k<K. m \<le> c (Suc k)" by (rule r[THEN conjunct2, THEN conjunct1])
  have alt: "(b = 0 \<and> m = 99999) \<or>
      (\<exists>k<K. b = 1 - 1 + k \<and> m = c (Suc k) \<and> c (Suc k) < 99999 \<and>
         (\<forall>k'<k. c (Suc k) < c (Suc k')))"
    by (rule r[THEN conjunct2, THEN conjunct2])
  have i: "b + 1 \<le> K \<and> (\<forall>n. 1 \<le> n \<and> n \<le> K \<longrightarrow> c (b + 1) \<le> c n) \<and>
      (\<forall>n. 1 \<le> n \<and> n < b + 1 \<longrightarrow> c (b + 1) < c n)"
    if ex: "\<exists>n. 1 \<le> n \<and> n \<le> K \<and> c n < 99999"
  proof -
    from ex obtain n where n: "1 \<le> n" "n \<le> K" "c n < 99999" by auto
    then obtain j where j: "n = Suc j" by (cases n) auto
    with n all have "m \<le> c n" by auto
    with n have "m \<noteq> 99999" by simp
    with alt obtain k where k: "k < K" "b = k" "m = c (Suc k)"
      "\<forall>k'<k. c (Suc k) < c (Suc k')" by auto
    have le: "c (b + 1) \<le> c n'" if "1 \<le> n'" "n' \<le> K" for n'
    proof -
      from that obtain j' where "n' = Suc j'" by (cases n') auto
      with that all k show ?thesis by auto
    qed
    have lt: "c (b + 1) < c n'" if "1 \<le> n'" "n' < b + 1" for n'
    proof -
      from that obtain j' where "n' = Suc j'" by (cases n') auto
      with that k show ?thesis by auto
    qed
    from k(1,2) le lt show ?thesis by auto
  qed
  have ii: "b = 0" if no: "\<forall>n. 1 \<le> n \<and> n \<le> K \<longrightarrow> 99999 \<le> c n"
  proof -
    have "\<not> (\<exists>k<K. b = 1 - 1 + k \<and> m = c (Suc k) \<and> c (Suc k) < 99999 \<and>
         (\<forall>k'<k. c (Suc k) < c (Suc k')))"
    proof
      assume "\<exists>k<K. b = 1 - 1 + k \<and> m = c (Suc k) \<and> c (Suc k) < 99999 \<and>
         (\<forall>k'<k. c (Suc k) < c (Suc k'))"
      then obtain k where "k < K" "c (Suc k) < 99999" by auto
      with no[rule_format, of "Suc k"] show False by simp
    qed
    with alt have "b = 0 \<and> m = 99999" by blast
    then show ?thesis by simp
  qed
  from i ii show ?thesis unfolding K_def c_def b_def by (intro conjI impI) auto
qed

subsection \<open>The phases of the program\<close>

lemma running_skip: "outcome s \<noteq> None \<Longrightarrow> running f s = s"
  by (auto simp: running_def)

lemma running_run: "outcome s = None \<Longrightarrow> running f s = f s"
  by (simp add: running_def)

text \<open>The examples.\<close>

lemma draw_example_result:
  assumes "length (examples s) = i"
  shows "outcome (draw_example ops g outdir project i s) = outcome s"
    "snap (draw_example ops g outdir project i s) = snap s"
    "minCost (draw_example ops g outdir project i s) = minCost s"
    "bestBasis (draw_example ops g outdir project i s) = bestBasis s"
    "costGraphs (draw_example ops g outdir project i s) = costGraphs s"
    "filterGraphs (draw_example ops g outdir project i s) = filterGraphs s"
    "wavenet (draw_example ops g outdir project i s) = wavenet s"
    "length (examples (draw_example ops g outdir project i s)) = Suc i"
    "trace (draw_example ops g outdir project i s) =
       trace s @ [GeneratorNext, CanvasSaveAs (example_file outdir project i)]"
    "disk (draw_example ops g outdir project i s) =
       (disk s)(example_file outdir project i \<mapsto> Picture)"
  using assms
  by (simp_all add: draw_example_def Let_def vector_at_def emit_def canvas_SaveAs_def)

lemma examples_prefix:
  assumes "outcome s = None" and "examples s = []"
  shows "outcome (fold (\<lambda>i. running (draw_example ops g outdir project i)) [0..<n] s) = None \<and>
    snap (fold (\<lambda>i. running (draw_example ops g outdir project i)) [0..<n] s) = snap s \<and>
    minCost (fold (\<lambda>i. running (draw_example ops g outdir project i)) [0..<n] s) = minCost s \<and>
    bestBasis (fold (\<lambda>i. running (draw_example ops g outdir project i)) [0..<n] s) = bestBasis s \<and>
    costGraphs (fold (\<lambda>i. running (draw_example ops g outdir project i)) [0..<n] s) = costGraphs s \<and>
    filterGraphs (fold (\<lambda>i. running (draw_example ops g outdir project i)) [0..<n] s)
      = filterGraphs s \<and>
    wavenet (fold (\<lambda>i. running (draw_example ops g outdir project i)) [0..<n] s) = wavenet s \<and>
    length (examples (fold (\<lambda>i. running (draw_example ops g outdir project i)) [0..<n] s)) = n \<and>
    (\<exists>es. trace (fold (\<lambda>i. running (draw_example ops g outdir project i)) [0..<n] s)
             = trace s @ es \<and> list_all (\<lambda>e. \<not> audit_or_movie e) es) \<and>
    (\<forall>p. (\<forall>i. p \<noteq> example_file outdir project i) \<longrightarrow>
       disk (fold (\<lambda>i. running (draw_example ops g outdir project i)) [0..<n] s) p = disk s p)"
proof (induction n)
  case 0
  show ?case using assms by simp
next
  case (Suc n)
  let ?t = "fold (\<lambda>i. running (draw_example ops g outdir project i)) [0..<n] s"
  from Suc have o: "outcome ?t = None" and l: "length (examples ?t) = n" by simp_all
  have step: "fold (\<lambda>i. running (draw_example ops g outdir project i)) [0..<Suc n] s =
      draw_example ops g outdir project n ?t"
    using o by (simp add: running_def)
  from Suc obtain es where es: "trace ?t = trace s @ es" "list_all (\<lambda>e. \<not> audit_or_movie e) es"
    by auto
  have tr: "\<exists>es'. trace (draw_example ops g outdir project n ?t) = trace s @ es' \<and>
      list_all (\<lambda>e. \<not> audit_or_movie e) es'"
    using es
    by (intro exI[of _ "es @ [GeneratorNext, CanvasSaveAs (example_file outdir project n)]"])
      (simp add: draw_example_result[OF l])
  have dk: "\<forall>p. (\<forall>i. p \<noteq> example_file outdir project i) \<longrightarrow>
      disk (draw_example ops g outdir project n ?t) p = disk s p"
    using Suc by (simp add: draw_example_result[OF l])
  show ?case
    unfolding step using Suc tr dk by (simp add: draw_example_result[OF l])
qed

lemmas generate_examples_result =
  examples_prefix[of _ _ _ _ _ 10, folded for_loop_fold, folded generate_examples_def]

text \<open>Traces only grow, and loops grow them by what their bodies add.\<close>

lemma fold_trace_ext:
  assumes "\<And>x s. \<exists>es. tr (f x s) = tr s @ es \<and> list_all P es"
  shows "\<exists>es. tr (fold f xs s) = tr s @ es \<and> list_all P es"
proof (induction xs arbitrary: s)
  case Nil
  show ?case by simp
next
  case (Cons x xs)
  from assms[of x s] obtain es where es: "tr (f x s) = tr s @ es" "list_all P es" by auto
  from Cons[of "f x s"] obtain es' where
    es': "tr (fold f xs (f x s)) = tr (f x s) @ es'" "list_all P es'" by auto
  from es es' show ?case by (intro exI[of _ "es @ es'"]) simp
qed

lemma running_trace_ext:
  assumes "\<exists>es. trace (f s) = trace s @ es \<and> list_all P es"
  shows "\<exists>es. trace (running f s) = trace s @ es \<and> list_all P es"
  using assms by (cases "outcome s = None") (simp_all add: running_def)

text \<open>The scan.\<close>

lemma scan_body_not_returned:
  "outcome s \<noteq> Some (Returned r) \<Longrightarrow> outcome (scan_body ops pattern s) \<noteq> Some (Returned r)"
  by (auto simp: scan_body_def Let_def throw_def engine_load_def emit_def
      split: sum.splits if_splits)

lemma scan_loop_frame:
  "outcome s \<noteq> Some (Returned r) \<Longrightarrow>
     outcome (scan_loop ops pattern M s) \<noteq> Some (Returned r) \<and>
     length (costGraphs (scan_loop ops pattern M s)) = length (costGraphs s) \<and>
     length (filterGraphs (scan_loop ops pattern M s)) = length (filterGraphs s)"
proof (induction ops pattern M s rule: scan_loop.induct)
  case (1 ops pattern M s)
  show ?case
  proof (cases "snapshot_exists pattern s \<and> snap s \<le> M")
    case False
    then have "scan_loop ops pattern M s = s" by (rule scan_loop_stop)
    with "1.prems" show ?thesis by simp
  next
    case True
    let ?s' = "scan_body ops pattern s"
    have nr: "outcome ?s' \<noteq> Some (Returned r)"
      using "1.prems" by (rule scan_body_not_returned)
    show ?thesis
    proof (cases "outcome ?s' = None")
      case False
      with True have "scan_loop ops pattern M s = ?s'" by (rule scan_loop_throw)
      with nr show ?thesis by (simp add: scan_body_lengths)
    next
      case running: True
      with True have eq: "scan_loop ops pattern M s = scan_loop ops pattern M ?s'"
        by (rule scan_loop_step)
      from "1.IH"[OF True refl running nr] show ?thesis
        unfolding eq by (simp add: scan_body_lengths)
    qed
  qed
qed

lemma filter_points_rows:
  "\<forall>f\<in>set filterLog. 2 \<le> length f \<Longrightarrow> Ncoeffs \<le> length filterLog \<Longrightarrow>
     \<exists>pts. filter_points filterLog Ncoeffs i = Inr pts"
proof (induction filterLog Ncoeffs i rule: filter_points.induct)
  case (1 filterLog Ncoeffs i)
  show ?case
  proof (cases "i < Ncoeffs")
    case False
    then show ?thesis by (simp add: filter_points.simps[of filterLog Ncoeffs i])
  next
    case True
    with "1.prems" have at: "vector_at filterLog i = Inr (filterLog ! i)"
      by (simp add: vector_at_def)
    from True "1.prems" have "2 \<le> length (filterLog ! i)" by simp
    then have x: "as_scalar_row (filterLog ! i) 0 = Inr (filterLog ! i ! 0)"
      and y: "as_scalar_row (filterLog ! i) 1 = Inr (filterLog ! i ! 1)"
      by (auto simp: as_scalar_row_def)
    from "1.IH"[OF True at x y "1.prems"]
    obtain pts where "filter_points filterLog Ncoeffs (i + 1) = Inr pts" by auto
    with True at x y show ?thesis
      by (simp add: filter_points.simps[of filterLog Ncoeffs i])
  qed
qed

lemma scan_body_completes:
  assumes "1 \<le> snap s" and "snap s \<le> length (costGraphs s)"
    and "snap s \<le> length (filterGraphs s)" and "snap s < 2 ^ 64"
    and "2 \<le> length (op_costLog ops (op_load ops (wavenet s)
             (disk s (snapshot_file pattern (snap s)))))"
    and "length (op_costLog ops (op_load ops (wavenet s)
             (disk s (snapshot_file pattern (snap s))))) < 2 ^ 64"
    and "\<forall>f\<in>set (op_filterLog ops (op_load ops (wavenet s)
             (disk s (snapshot_file pattern (snap s))))). 2 \<le> length f"
    and "outcome s = None"
  shows "outcome (scan_body ops pattern s) = None"
proof -
  let ?w = "op_load ops (wavenet s) (disk s (snapshot_file pattern (snap s)))"
  have "size_minus (snap s) 1 = snap s - 1"
    using assms(1,4) by (intro size_minus_exact) simp_all
  then have k: "size_minus (snap s) (Suc 0) = snap s - Suc 0" by simp
  have c: "size_minus (length (op_costLog ops ?w)) 2 = length (op_costLog ops ?w) - 2"
    using assms(5,6) by (intro size_minus_exact) simp_all
  obtain pts where f: "filter_points (op_filterLog ops ?w)
      (to_unsigned (length (op_filterLog ops ?w))) 0 = Inr pts"
    using filter_points_rows[OF assms(7) to_unsigned_le] by auto
  show ?thesis
    using assms(1-6,8)
    by (auto simp: scan_body_def Let_def throw_def engine_load_def emit_def k c f
        vector_at_put_def vector_at_def split: sum.splits if_splits)
qed

lemma scan_loop_completes:
  "1 \<le> snap s \<Longrightarrow> length (costGraphs s) = M \<Longrightarrow> length (filterGraphs s) = M \<Longrightarrow>
   M < 2 ^ 64 \<Longrightarrow> outcome s = None \<Longrightarrow>
   \<forall>k < scanned_from (disk s) pattern (snap s) M.
      2 \<le> length (op_costLog ops (engine_from ops pattern (disk s) (wavenet s) (snap s) (Suc k))) \<and>
      length (op_costLog ops (engine_from ops pattern (disk s) (wavenet s) (snap s) (Suc k)))
        < 2 ^ 64 \<and>
      (\<forall>f\<in>set (op_filterLog ops
           (engine_from ops pattern (disk s) (wavenet s) (snap s) (Suc k))). 2 \<le> length f) \<Longrightarrow>
   outcome (scan_loop ops pattern M s) = None"
proof (induction ops pattern M s rule: scan_loop.induct)
  case (1 ops pattern M s)
  show ?case
  proof (cases "snapshot_exists pattern s \<and> snap s \<le> M")
    case False
    then have "scan_loop ops pattern M s = s" by (rule scan_loop_stop)
    with "1.prems"(5) show ?thesis by simp
  next
    case True
    then have lead: "scanned_from (disk s) pattern (snap s) M =
        Suc (scanned_from (disk s) pattern (Suc (snap s)) M)"
      by (intro scanned_from_step) (simp add: snapshot_exists_def fileExists_def)
    let ?s' = "scan_body ops pattern s"
    let ?w = "op_load ops (wavenet s) (disk s (snapshot_file pattern (snap s)))"
    have first: "2 \<le> length (op_costLog ops ?w) \<and> length (op_costLog ops ?w) < 2 ^ 64 \<and>
        (\<forall>f\<in>set (op_filterLog ops ?w). 2 \<le> length f)"
      using "1.prems"(6)[rule_format, of 0] lead by simp
    have running: "outcome ?s' = None"
      using "1.prems"(1-5) True first by (intro scan_body_completes) simp_all
    with True have eq: "scan_loop ops pattern M s = scan_loop ops pattern M ?s'"
      by (rule scan_loop_step)
    from running have sn: "snap ?s' = Suc (snap s)" by (simp add: scan_body_running)
    have rest: "\<forall>k < scanned_from (disk ?s') pattern (snap ?s') M.
        2 \<le> length (op_costLog ops
               (engine_from ops pattern (disk ?s') (wavenet ?s') (snap ?s') (Suc k))) \<and>
        length (op_costLog ops
               (engine_from ops pattern (disk ?s') (wavenet ?s') (snap ?s') (Suc k))) < 2 ^ 64 \<and>
        (\<forall>f\<in>set (op_filterLog ops
             (engine_from ops pattern (disk ?s') (wavenet ?s') (snap ?s') (Suc k))).
           2 \<le> length f)"
    proof (intro allI impI)
      fix k assume "k < scanned_from (disk ?s') pattern (snap ?s') M"
      then have "Suc k < scanned_from (disk s) pattern (snap s) M"
        unfolding sn scan_body_disk lead by simp
      from "1.prems"(6)[rule_format, OF this]
      show "2 \<le> length (op_costLog ops
               (engine_from ops pattern (disk ?s') (wavenet ?s') (snap ?s') (Suc k))) \<and>
        length (op_costLog ops
               (engine_from ops pattern (disk ?s') (wavenet ?s') (snap ?s') (Suc k))) < 2 ^ 64 \<and>
        (\<forall>f\<in>set (op_filterLog ops
             (engine_from ops pattern (disk ?s') (wavenet ?s') (snap ?s') (Suc k))).
           2 \<le> length f)"
        unfolding sn scan_body_disk scan_body_wavenet engine_from_shift .
    qed
    have "outcome (scan_loop ops pattern M ?s') = None"
    proof (rule "1.IH"[OF True refl running])
      show "1 \<le> snap ?s'" unfolding sn by simp
      show "length (costGraphs ?s') = M" using "1.prems"(2) by (simp add: scan_body_lengths)
      show "length (filterGraphs ?s') = M" using "1.prems"(3) by (simp add: scan_body_lengths)
      show "M < 2 ^ 64" by (rule "1.prems"(4))
      show "outcome ?s' = None" by (rule running)
      show "\<forall>k < scanned_from (disk ?s') pattern (snap ?s') M.
        2 \<le> length (op_costLog ops
               (engine_from ops pattern (disk ?s') (wavenet ?s') (snap ?s') (Suc k))) \<and>
        length (op_costLog ops
               (engine_from ops pattern (disk ?s') (wavenet ?s') (snap ?s') (Suc k))) < 2 ^ 64 \<and>
        (\<forall>f\<in>set (op_filterLog ops
             (engine_from ops pattern (disk ?s') (wavenet ?s') (snap ?s') (Suc k))).
           2 \<le> length f)"
        by (rule rest)
    qed
    then show ?thesis unfolding eq .
  qed
qed

text \<open>The cost graphs and the cost map.\<close>

lemma draw_cost_graphs_frame:
  "bestBasis (draw_cost_graphs outdir M s) = bestBasis s \<and>
   snap (draw_cost_graphs outdir M s) = snap s \<and>
   filterGraphs (draw_cost_graphs outdir M s) = filterGraphs s \<and>
   (outcome s \<noteq> Some (Returned r) \<longrightarrow> outcome (draw_cost_graphs outdir M s) \<noteq> Some (Returned r)) \<and>
   (outcome s = None \<and> length (costGraphs s) = M \<longrightarrow> outcome (draw_cost_graphs outdir M s) = None) \<and>
   (\<exists>es. trace (draw_cost_graphs outdir M s) = trace s @ es \<and>
         list_all (\<lambda>e. \<not> audit_or_movie e) es)"
  by (simp add: draw_cost_graphs_def throw_def canvas_SaveAs_def emit_def vector_at_def)

lemma draw_cost_map_frame:
  "bestBasis (draw_cost_map outdir M s) = bestBasis s \<and>
   snap (draw_cost_map outdir M s) = snap s \<and>
   (outcome s \<noteq> Some (Returned r) \<longrightarrow> outcome (draw_cost_map outdir M s) \<noteq> Some (Returned r)) \<and>
   (outcome s = None \<and> length (filterGraphs s) = M \<longrightarrow> outcome (draw_cost_map outdir M s) = None) \<and>
   (\<exists>es. trace (draw_cost_map outdir M s) = trace s @ es \<and>
         list_all (\<lambda>e. \<not> audit_or_movie e) es)"
  by (simp add: draw_cost_map_def throw_def canvas_SaveAs_def emit_def vector_at_def)

lemma cost_map_step_frame:
  "bestBasis (cost_map_step ops project s) = bestBasis s \<and>
   snap (cost_map_step ops project s) = snap s \<and>
   filterGraphs (cost_map_step ops project s) = filterGraphs s \<and>
   outcome (cost_map_step ops project s) = outcome s \<and>
   (\<exists>es. trace (cost_map_step ops project s) = trace s @ es \<and>
         list_all (\<lambda>e. \<not> audit_or_movie e) es)"
  by (simp add: cost_map_step_def Let_def mat_save_def emit_def split: prod.splits)

lemma running_frame:
  assumes "bestBasis (f s) = bestBasis s"
  shows "bestBasis (running f s) = bestBasis s"
  using assms by (simp add: running_def)

lemma charts_frame:
  "bestBasis (charts ops project M s) = bestBasis s \<and>
   (outcome s \<noteq> Some (Returned r) \<longrightarrow> outcome (charts ops project M s) \<noteq> Some (Returned r)) \<and>
   (outcome s = None \<and> length (costGraphs s) = M \<and> length (filterGraphs s) = M \<longrightarrow>
      outcome (charts ops project M s) = None) \<and>
   (\<exists>es. trace (charts ops project M s) = trace s @ es \<and>
         list_all (\<lambda>e. \<not> audit_or_movie e) es)"
proof -
  let ?a = "running (draw_cost_graphs (outdir_of project) M) s"
  let ?b = "running (cost_map_step ops project) ?a"
  let ?c = "running (draw_cost_map (outdir_of project) M) ?b"
  note g = draw_cost_graphs_frame[of "outdir_of project" M s r]
  note m = cost_map_step_frame[of ops project ?a]
  note d = draw_cost_map_frame[of "outdir_of project" M ?b r]
  have ch: "charts ops project M s = ?c" by (simp add: charts_def)
  have b: "bestBasis ?c = bestBasis s"
    using g m d by (simp add: running_def)
  have fg: "filterGraphs ?b = filterGraphs s"
    using g m by (simp add: running_def)
  have nra: "outcome s \<noteq> Some (Returned r) \<longrightarrow> outcome ?a \<noteq> Some (Returned r)"
    using g by (cases "outcome s = None") (simp_all add: running_def)
  have nrb: "outcome ?a \<noteq> Some (Returned r) \<longrightarrow> outcome ?b \<noteq> Some (Returned r)"
    using m by (cases "outcome ?a = None") (simp_all add: running_run running_skip)
  have nrc: "outcome ?b \<noteq> Some (Returned r) \<longrightarrow> outcome ?c \<noteq> Some (Returned r)"
    using d by (cases "outcome ?b = None") (simp_all add: running_run running_skip)
  have nr: "outcome s \<noteq> Some (Returned r) \<longrightarrow> outcome ?c \<noteq> Some (Returned r)"
    using nra nrb nrc by blast
  have ok: "outcome ?c = None"
    if h: "outcome s = None \<and> length (costGraphs s) = M \<and> length (filterGraphs s) = M"
  proof -
    from h have a: "?a = draw_cost_graphs (outdir_of project) M s" by (simp add: running_run)
    from h g have oa: "outcome ?a = None" unfolding a by simp
    then have ob: "outcome ?b = None" using m by (simp add: running_run)
    from h fg have "length (filterGraphs ?b) = M" by simp
    with ob d show ?thesis by (simp add: running_run)
  qed
  then have ok: "outcome s = None \<and> length (costGraphs s) = M \<and> length (filterGraphs s) = M \<longrightarrow>
      outcome ?c = None" by blast
  obtain e1 where e1: "trace ?a = trace s @ e1" "list_all (\<lambda>e. \<not> audit_or_movie e) e1"
    using running_trace_ext[where f = "draw_cost_graphs (outdir_of project) M" and s = s
        and P = "\<lambda>e. \<not> audit_or_movie e",
        OF g[THEN conjunct2, THEN conjunct2, THEN conjunct2, THEN conjunct2, THEN conjunct2]]
    by auto
  obtain e2 where e2: "trace ?b = trace ?a @ e2" "list_all (\<lambda>e. \<not> audit_or_movie e) e2"
    using running_trace_ext[where f = "cost_map_step ops project" and s = ?a
        and P = "\<lambda>e. \<not> audit_or_movie e",
        OF m[THEN conjunct2, THEN conjunct2, THEN conjunct2, THEN conjunct2]]
    by auto
  obtain e3 where e3: "trace ?c = trace ?b @ e3" "list_all (\<lambda>e. \<not> audit_or_movie e) e3"
    using running_trace_ext[where f = "draw_cost_map (outdir_of project) M" and s = ?b
        and P = "\<lambda>e. \<not> audit_or_movie e",
        OF d[THEN conjunct2, THEN conjunct2, THEN conjunct2, THEN conjunct2]]
    by auto
  have tr: "\<exists>es. trace ?c = trace s @ es \<and> list_all (\<lambda>e. \<not> audit_or_movie e) es"
    using e1 e2 e3 by (intro exI[of _ "e1 @ e2 @ e3"]) simp
  show ?thesis unfolding ch by (intro conjI b nr ok tr)
qed

text \<open>The best snapshot, the audit and the movie.\<close>

lemma load_best_trace:
  "trace (load_best ops pattern s) =
     trace s @ [EngineLoad (snapshot_file pattern (bestBasis s + 1))]"
  by (simp add: load_best_def Let_def engine_load_def emit_def)

lemma audit_cell_no_load:
  "\<exists>es. trace (audit_cell ops W H i j s) = trace s @ es \<and> list_all (\<lambda>e. \<not> is_load e) es"
  by (simp add: audit_cell_trace)

lemma audit_no_load:
  "\<exists>es. trace (audit ops outdir W H s) = trace s @ es \<and> list_all (\<lambda>e. \<not> is_load e) es"
proof -
  let ?loop = "fold (\<lambda>(i, j). audit_cell ops W H i j) (List.product [0..<sq W] [0..<sq H]) s"
  have "\<exists>es. trace ?loop = trace s @ es \<and> list_all (\<lambda>e. \<not> is_load e) es"
  proof (rule fold_trace_ext)
    fix x :: "nat \<times> nat" and t :: "('a, 'b) state"
    obtain i j where x: "x = (i, j)" by (cases x)
    show "\<exists>es. trace ((case x of (i, j) \<Rightarrow> audit_cell ops W H i j) t) = trace t @ es \<and>
        list_all (\<lambda>e. \<not> is_load e) es"
      unfolding x using audit_cell_no_load[of ops W H i j t] by simp
  qed
  then obtain es where "trace ?loop = trace s @ es" "list_all (\<lambda>e. \<not> is_load e) es" by auto
  then show ?thesis
    by (intro exI[of _ "es @ [CanvasSaveAs (outdir @ ''NormDistributions.pdf'')]"])
      (simp add: audit_def nested_for_loop canvas_SaveAs_def emit_def)
qed

lemma render_pixels_no_load:
  "\<exists>es. trace (render_pixels ops W H dx dy s) = trace s @ es \<and> list_all (\<lambda>e. \<not> is_load e) es"
proof -
  have "list_all (\<lambda>e. \<not> is_load e) (map (\<lambda>(i, j). BasisFunction W H i j) ps)" for ps
    by (induction ps) auto
  then show ?thesis using render_pixels_result[of ops W H dx dy s] by simp
qed

lemma render_step_no_load:
  "\<exists>es. trace (fst (render_step ops outdir W H dx dy fl N i st)) = trace (fst st) @ es \<and>
        list_all (\<lambda>e. \<not> is_load e) es"
proof -
  obtain s f where st: "st = (s, f)" by (cases st)
  obtain es where es: "trace (render_pixels ops W H dx dy
      (emit [SetFilter (fl ! i)] (s\<lparr>wavenet := op_setFilter ops (wavenet s) (fl ! i)\<rparr>))) =
      trace (emit [SetFilter (fl ! i)] (s\<lparr>wavenet := op_setFilter ops (wavenet s) (fl ! i)\<rparr>)) @ es"
    "list_all (\<lambda>e. \<not> is_load e) es"
    using render_pixels_no_load by blast
  then have "trace (canvas_SaveAs (frame_file outdir f) (render_pixels ops W H dx dy
      (emit [SetFilter (fl ! i)] (s\<lparr>wavenet := op_setFilter ops (wavenet s) (fl ! i)\<rparr>)))) =
      trace s @ (SetFilter (fl ! i) # es @ [CanvasSaveAs (frame_file outdir f)])"
    by (simp add: canvas_SaveAs_def emit_def)
  moreover have "list_all (\<lambda>e. \<not> is_load e)
      (SetFilter (fl ! i) # es @ [CanvasSaveAs (frame_file outdir f)])"
    using es(2) by simp
  ultimately have big: "\<exists>es'. trace (canvas_SaveAs (frame_file outdir f)
      (render_pixels ops W H dx dy
        (emit [SetFilter (fl ! i)] (s\<lparr>wavenet := op_setFilter ops (wavenet s) (fl ! i)\<rparr>)))) =
      trace s @ es' \<and> list_all (\<lambda>e. \<not> is_load e) es'"
    by blast
  have small: "\<exists>es'. trace (emit [SetFilter (fl ! i)]
      (s\<lparr>wavenet := op_setFilter ops (wavenet s) (fl ! i)\<rparr>)) = trace s @ es' \<and>
      list_all (\<lambda>e. \<not> is_load e) es'"
    by (simp add: emit_def)
  have none: "\<exists>es'. trace s = trace s @ es' \<and> list_all (\<lambda>e. \<not> is_load e) es'"
    by simp
  have thr: "\<exists>es'. trace (throw e s) = trace s @ es' \<and> list_all (\<lambda>e. \<not> is_load e) es'" for e
    by (simp add: throw_def)
  show ?thesis
    unfolding st using big small none thr
    by (simp add: render_step_def vector_at_def Let_def)
qed

lemma render_steps_no_load:
  "\<exists>es. trace (fst (fold (render_step ops outdir W H dx dy fl N) xs st)) = trace (fst st) @ es \<and>
        list_all (\<lambda>e. \<not> is_load e) es"
proof (induction xs arbitrary: st)
  case Nil
  show ?case by simp
next
  case (Cons x xs)
  from render_step_no_load[of ops outdir W H dx dy fl N x st]
  obtain es where es: "trace (fst (render_step ops outdir W H dx dy fl N x st)) =
      trace (fst st) @ es" "list_all (\<lambda>e. \<not> is_load e) es" by auto
  from Cons[of "render_step ops outdir W H dx dy fl N x st"]
  obtain es' where es': "trace (fst (fold (render_step ops outdir W H dx dy fl N) xs
      (render_step ops outdir W H dx dy fl N x st))) =
      trace (fst (render_step ops outdir W H dx dy fl N x st)) @ es'"
    "list_all (\<lambda>e. \<not> is_load e) es'" by auto
  from es es' show ?case by (intro exI[of _ "es @ es'"]) simp
qed

lemma render_no_load:
  "\<exists>es. trace (render ops outdir W H s) = trace s @ es \<and> list_all (\<lambda>e. \<not> is_load e) es"
  using render_steps_no_load[of ops outdir W H "min W 8" "min H 8" "op_filterLog ops (wavenet s)"
      "to_unsigned (length (op_filterLog ops (wavenet s)))"
      "[0..<to_unsigned (length (op_filterLog ops (wavenet s)))]" "(s, 0)"]
  by (simp add: render_def Let_def for_loop_fold)

lemma fold_keeps:
  assumes "\<And>x s. g (f x s) = g s"
  shows "g (fold f xs s) = g s"
  by (induction xs arbitrary: s) (simp_all add: assms)

lemma audit_outcome: "outcome (audit ops outdir W H s) = outcome s"
proof -
  have c: "outcome (audit_cell ops W H i j t) = outcome t" for i j t
    by (simp add: audit_cell_def emit_def Let_def split: prod.splits)
  have "outcome (fold (\<lambda>(i, j). audit_cell ops W H i j) ps s) = outcome s" for ps
    by (induction ps arbitrary: s) (auto simp: c)
  then show ?thesis
    by (simp add: audit_def nested_for_loop canvas_SaveAs_def emit_def)
qed

lemma load_best_outcome: "outcome (load_best ops pattern s) = outcome s"
  by (simp add: load_best_def Let_def engine_load_def emit_def)

lemma render_step_outcome:
  assumes "i < length fl" and "outcome (fst st) = None"
  shows "outcome (fst (render_step ops outdir W H dx dy fl N i st)) = None"
proof -
  obtain s f where st: "st = (s, f)" by (cases st)
  show ?thesis
    using assms unfolding st
    by (simp add: render_step_def vector_at_def Let_def canvas_SaveAs_def emit_def
        render_pixels_result)
qed

lemma render_steps_outcome:
  assumes "outcome (fst st) = None" and "n \<le> length fl"
  shows "outcome (fst (fold (render_step ops outdir W H dx dy fl N) [0..<n] st)) = None"
  using assms(2)
proof (induction n)
  case 0
  show ?case using assms(1) by simp
next
  case (Suc n)
  then have "outcome (fst (fold (render_step ops outdir W H dx dy fl N) [0..<n] st)) = None"
    and "n < length fl" by simp_all
  then show ?case by (simp add: render_step_outcome)
qed

lemma render_outcome:
  assumes "outcome s = None"
  shows "outcome (render ops outdir W H s) = None"
  using render_steps_outcome[of "(s, 0)" "to_unsigned (length (op_filterLog ops (wavenet s)))"
      "op_filterLog ops (wavenet s)" ops outdir W H "min W 8" "min H 8"
      "to_unsigned (length (op_filterLog ops (wavenet s)))"] assms
  by (simp add: render_def Let_def for_loop_fold to_unsigned_le)

lemma basis_trace:
  assumes "outcome s = None"
  shows "outcome (basis ops project W H s) = None \<and>
         (\<exists>post. trace (basis ops project W H s) =
            trace s @ EngineLoad (snapshot_file (pattern_of project) (bestBasis s + 1)) # post \<and>
            list_all (\<lambda>e. \<not> is_load e) post)"
proof -
  let ?l = "load_best ops (pattern_of project) s"
  let ?a = "audit ops (outdir_of project) W H ?l"
  let ?r = "render ops (outdir_of project) W H ?a"
  have ol: "outcome ?l = None" using assms by (simp add: load_best_outcome)
  then have oa: "outcome ?a = None" by (simp add: audit_outcome)
  then have orr: "outcome ?r = None" by (rule render_outcome)
  have b: "basis ops project W H s = ?r"
    using assms ol oa by (simp add: basis_def running_run)
  obtain e1 where e1: "trace ?a = trace ?l @ e1" "list_all (\<lambda>e. \<not> is_load e) e1"
    using audit_no_load[of ops "outdir_of project" W H ?l] by auto
  obtain e2 where e2: "trace ?r = trace ?a @ e2" "list_all (\<lambda>e. \<not> is_load e) e2"
    using render_no_load[of ops "outdir_of project" W H ?a] by auto
  have "trace ?r = trace s @
      EngineLoad (snapshot_file (pattern_of project) (bestBasis s + 1)) # (e1 @ e2)"
    using e1 e2 by (simp add: load_best_trace)
  moreover have "list_all (\<lambda>e. \<not> is_load e) (e1 @ e2)" using e1 e2 by simp
  ultimately have "\<exists>post. trace ?r =
      trace s @ EngineLoad (snapshot_file (pattern_of project) (bestBasis s + 1)) # post \<and>
      list_all (\<lambda>e. \<not> is_load e) post"
    by blast
  with orr show ?thesis unfolding b by simp
qed

text \<open>What the scan sees of the disk are the snapshot files only.\<close>

lemma engine_from_disk:
  assumes "\<forall>n. d1 (snapshot_file pattern n) = d2 (snapshot_file pattern n)"
  shows "engine_from ops pattern d1 w a k = engine_from ops pattern d2 w a k"
  by (induction k) (simp_all add: assms)

lemma scanned_from_disk:
  assumes "\<forall>n. d1 (snapshot_file pattern n) = d2 (snapshot_file pattern n)"
  shows "scanned_from d1 pattern a M = scanned_from d2 pattern a M"
  unfolding scanned_from_def using assms by simp

lemma project_cases:
  assumes "mode = Uniform \<or> mode = Needle \<or> mode = Gaussian"
    and "project_name mode 4 = Some project"
  shows "project = ''Run.Uniform.N4'' \<or> project = ''Run.Needle.N4'' \<or>
         project = ''Run.Gaussian.N4''"
  using assms by (auto simp: project_name_def to_string_4)

lemma snapshot_file_of_project:
  assumes "project = ''Run.Uniform.N4'' \<or> project = ''Run.Needle.N4'' \<or>
           project = ''Run.Gaussian.N4''"
  shows "snapshot_file (pattern_of project) n =
           outdir_of project @ ''snapshots/'' @ project @ ''.'' @ pad6 n @ ''.snap''"
  using assms by (elim disjE) (simp_all add: pattern_of_def outdir_of_def)

lemma snapshot_file_not_written:
  assumes "project = ''Run.Uniform.N4'' \<or> project = ''Run.Needle.N4'' \<or>
           project = ''Run.Gaussian.N4''"
  shows "snapshot_file (pattern_of project) n \<noteq> outdir_of project @ ''tmp.snap''"
    and "snapshot_file (pattern_of project) n \<noteq> example_file (outdir_of project) project i"
  unfolding snapshot_file_of_project[OF assms] example_file_def by simp_all

subsection \<open>The whole program\<close>

lemma main_phases:
  assumes "mode = Uniform \<or> mode = Needle \<or> mode = Gaussian"
    and "project_name mode 4 = Some project"
  shows "\<exists>g. main ops mode d w =
           running (return 1)
             (basis ops project 16 16
               (charts ops project 5
                 (survey ops g project 5
                   (engine_save (outdir_of project @ ''tmp.snap'') (initial d w 5)))))"
  using assms
  by (elim disjE) (auto simp: main_def analysis_def select_generator_def Let_def)

lemma start_state:
  "outcome (engine_save p (initial d w M)) = None"
  "examples (engine_save p (initial d w M)) = []"
  "snap (engine_save p (initial d w M)) = 1"
  "minCost (engine_save p (initial d w M)) = 99999"
  "bestBasis (engine_save p (initial d w M)) = 0"
  "length (costGraphs (engine_save p (initial d w M))) = M"
  "length (filterGraphs (engine_save p (initial d w M))) = M"
  "wavenet (engine_save p (initial d w M)) = w"
  "trace (engine_save p (initial d w M)) = [EngineSave p]"
  "disk (engine_save p (initial d w M)) = d(p \<mapsto> Snap w)"
  by (simp_all add: engine_save_def initial_def emit_def)

lemma survey_state:
  assumes p: "project = ''Run.Uniform.N4'' \<or> project = ''Run.Needle.N4'' \<or>
              project = ''Run.Gaussian.N4''"
    and sE_def: "sE = generate_examples ops g (outdir_of project) project
                   (engine_save (outdir_of project @ ''tmp.snap'') (initial d w M))"
  shows "survey ops g project M
           (engine_save (outdir_of project @ ''tmp.snap'') (initial d w M)) =
           scan ops (pattern_of project) M sE"
    and "outcome sE = None" and "snap sE = 1" and "minCost sE = 99999" and "bestBasis sE = 0"
    and "length (costGraphs sE) = M" and "length (filterGraphs sE) = M" and "wavenet sE = w"
    and "\<exists>es. trace sE = es \<and> list_all (\<lambda>e. \<not> audit_or_movie e) es"
    and "\<forall>n. disk sE (snapshot_file (pattern_of project) n) =
               d (snapshot_file (pattern_of project) n)"
proof -
  let ?s1 = "engine_save (outdir_of project @ ''tmp.snap'') (initial d w M)"
  note r = generate_examples_result[OF start_state(1,2), of ops g "outdir_of project" project
      "outdir_of project @ ''tmp.snap''" d w M, folded sE_def]
  show o: "outcome sE = None" by (rule r[THEN conjunct1])
  show "snap sE = 1" using r by (simp add: start_state)
  show "minCost sE = 99999" using r by (simp add: start_state)
  show "bestBasis sE = 0" using r by (simp add: start_state)
  show "length (costGraphs sE) = M" using r by (simp add: start_state)
  show "length (filterGraphs sE) = M" using r by (simp add: start_state)
  show "wavenet sE = w" using r by (simp add: start_state)
  from r obtain es where "trace sE = trace ?s1 @ es" "list_all (\<lambda>e. \<not> audit_or_movie e) es"
    by auto
  then show "\<exists>es. trace sE = es \<and> list_all (\<lambda>e. \<not> audit_or_movie e) es"
    by (simp add: start_state)
  from o show "survey ops g project M ?s1 = scan ops (pattern_of project) M sE"
    by (simp add: survey_def sE_def running_run)
  have dk: "\<forall>p. (\<forall>i. p \<noteq> example_file (outdir_of project) project i) \<longrightarrow>
      disk sE p = disk ?s1 p"
    using r by simp
  show "\<forall>n. disk sE (snapshot_file (pattern_of project) n) =
      d (snapshot_file (pattern_of project) n)"
  proof
    fix n
    have "disk sE (snapshot_file (pattern_of project) n) =
        disk ?s1 (snapshot_file (pattern_of project) n)"
      using dk snapshot_file_not_written(2)[OF p] by simp
    also have "\<dots> = d (snapshot_file (pattern_of project) n)"
      using snapshot_file_not_written(1)[OF p, of n] by (simp add: start_state)
    finally show "disk sE (snapshot_file (pattern_of project) n) =
        d (snapshot_file (pattern_of project) n)" .
  qed
qed

lemma scan_trace_quiet:
  assumes "snap s = 1"
  shows "\<exists>es. trace (scan ops pattern M s) = trace s @ es \<and>
          list_all (\<lambda>e. \<not> audit_or_movie e) es"
proof -
  from scan_loop_loads[of s pattern M ops]
  obtain j where "trace (scan_loop ops pattern M s) =
      trace s @ map (\<lambda>n. EngineLoad (snapshot_file pattern n)) [snap s..<snap s + j]"
    by (elim exE conjE)
  moreover have "list_all (\<lambda>e. \<not> audit_or_movie e)
      (map (\<lambda>n. EngineLoad (snapshot_file pattern n)) ns)" for ns
    by (induction ns) auto
  ultimately show ?thesis by (simp add: scan_def)
qed

lemma main_best_aux:
  assumes mode: "mode = Uniform \<or> mode = Needle \<or> mode = Gaussian"
    and project: "project_name mode 4 = Some project"
    and fin: "outcome (main ops mode d w) = Some (Returned 1)"
    and lens: "\<forall>n. 1 \<le> n \<and> n \<le> scanned d (pattern_of project) 5 \<longrightarrow>
       length (op_costLog ops (engine_at ops (pattern_of project) d w n)) < 2 ^ 64"
  shows "\<exists>b pre post.
     trace (main ops mode d w) =
       pre @ EngineLoad (snapshot_file (pattern_of project) b) # post \<and>
     list_all (\<lambda>e. \<not> audit_or_movie e) pre \<and> list_all (\<lambda>e. \<not> is_load e) post \<and>
     ((\<exists>n. 1 \<le> n \<and> n \<le> scanned d (pattern_of project) 5 \<and>
           cost_of ops (pattern_of project) d w n < 99999) \<longrightarrow>
        1 \<le> b \<and> b \<le> scanned d (pattern_of project) 5 \<and>
        (\<forall>n. 1 \<le> n \<and> n \<le> scanned d (pattern_of project) 5 \<longrightarrow>
           cost_of ops (pattern_of project) d w b \<le> cost_of ops (pattern_of project) d w n) \<and>
        (\<forall>n. 1 \<le> n \<and> n < b \<longrightarrow>
           cost_of ops (pattern_of project) d w b < cost_of ops (pattern_of project) d w n)) \<and>
     ((\<forall>n. 1 \<le> n \<and> n \<le> scanned d (pattern_of project) 5 \<longrightarrow>
           99999 \<le> cost_of ops (pattern_of project) d w n) \<longrightarrow> b = 1)"
proof -
  let ?pat = "pattern_of project"
  from main_phases[OF mode project, of ops d w] obtain g where
    m: "main ops mode d w = running (return 1) (basis ops project 16 16
          (charts ops project 5 (survey ops g project 5
            (engine_save (outdir_of project @ ''tmp.snap'') (initial d w 5)))))" ..
  note p = project_cases[OF mode project]
  define sE where "sE = generate_examples ops g (outdir_of project) project
      (engine_save (outdir_of project @ ''tmp.snap'') (initial d w 5))"
  define sS where "sS = scan ops ?pat 5 sE"
  define sC where "sC = charts ops project 5 sS"
  define sB where "sB = basis ops project 16 16 sC"
  note sv = survey_state[OF p sE_def]
  have m': "main ops mode d w = running (return 1) sB"
    unfolding m sv(1) sB_def sC_def sS_def ..
  note cf = charts_frame[of ops project 5 sS 1, folded sC_def]
  have nrS: "outcome sS \<noteq> Some (Returned 1)"
    unfolding sS_def scan_def
    by (rule scan_loop_frame[THEN conjunct1]) (simp add: sv(2))
  with cf have nrC: "outcome sC \<noteq> Some (Returned 1)" by blast
  have oC: "outcome sC = None"
  proof (rule ccontr)
    assume n: "outcome sC \<noteq> None"
    then have "sB = sC" by (simp add: sB_def basis_def running_skip)
    with n have "main ops mode d w = sC" by (simp add: m' running_skip)
    with fin nrC show False by simp
  qed
  have oS: "outcome sS = None"
  proof (rule ccontr)
    assume n: "outcome sS \<noteq> None"
    then have "sC = sS" by (simp add: sC_def charts_def running_skip)
    with n oC show False by simp
  qed
  have dk: "\<forall>n. disk sE (snapshot_file ?pat n) = d (snapshot_file ?pat n)" by (rule sv(10))
  have K: "scanned (disk sE) ?pat 5 = scanned d ?pat 5"
    unfolding scanned_def by (rule scanned_from_disk[OF dk])
  have E: "engine_at ops ?pat (disk sE) (wavenet sE) n = engine_at ops ?pat d w n" for n
    unfolding engine_at_def sv(8) by (rule engine_from_disk[OF dk])
  have C: "cost_of ops ?pat (disk sE) (wavenet sE) n = cost_of ops ?pat d w n" for n
    unfolding cost_of_def E ..
  have fS: "outcome (scan ops ?pat 5 sE) = None" using oS by (simp add: sS_def)
  have lE: "\<forall>n. 1 \<le> n \<and> n \<le> scanned (disk sE) ?pat 5 \<longrightarrow>
       length (op_costLog ops (engine_at ops ?pat (disk sE) (wavenet sE) n)) < 2 ^ 64"
    unfolding K E by (rule lens)
  note best = scan_best_run[OF sv(3) sv(4) sv(5) fS lE, unfolded K C, folded sS_def]
  have bC: "bestBasis sC = bestBasis sS" using cf by blast
  from sv(9) obtain e0 where e0: "trace sE = e0" "list_all (\<lambda>e. \<not> audit_or_movie e) e0"
    by blast
  from scan_trace_quiet[OF sv(3), of ops ?pat 5] obtain e1 where
    e1: "trace sS = trace sE @ e1" "list_all (\<lambda>e. \<not> audit_or_movie e) e1"
    unfolding sS_def by blast
  from cf obtain e2 where e2: "trace sC = trace sS @ e2" "list_all (\<lambda>e. \<not> audit_or_movie e) e2"
    by blast
  have quiet: "list_all (\<lambda>e. \<not> audit_or_movie e) (trace sC)"
    using e0 e1 e2 by simp
  from basis_trace[OF oC, of ops project 16 16, folded sB_def] obtain post where
    post: "trace sB = trace sC @ EngineLoad (snapshot_file ?pat (bestBasis sC + 1)) # post"
      "list_all (\<lambda>e. \<not> is_load e) post"
    by blast
  have tm: "trace (main ops mode d w) = trace sB"
    unfolding m' by (simp add: running_def return_def)
  have t: "trace (main ops mode d w) =
      trace sC @ EngineLoad (snapshot_file ?pat (bestBasis sS + 1)) # post"
    unfolding tm post(1) bC ..
  have i: "(\<exists>n. 1 \<le> n \<and> n \<le> scanned d ?pat 5 \<and> cost_of ops ?pat d w n < 99999) \<longrightarrow>
        1 \<le> bestBasis sS + 1 \<and> bestBasis sS + 1 \<le> scanned d ?pat 5 \<and>
        (\<forall>n. 1 \<le> n \<and> n \<le> scanned d ?pat 5 \<longrightarrow>
           cost_of ops ?pat d w (bestBasis sS + 1) \<le> cost_of ops ?pat d w n) \<and>
        (\<forall>n. 1 \<le> n \<and> n < bestBasis sS + 1 \<longrightarrow>
           cost_of ops ?pat d w (bestBasis sS + 1) < cost_of ops ?pat d w n)"
    using best[THEN conjunct1] by simp
  have ii: "(\<forall>n. 1 \<le> n \<and> n \<le> scanned d ?pat 5 \<longrightarrow> 99999 \<le> cost_of ops ?pat d w n) \<longrightarrow>
      bestBasis sS + 1 = 1"
    using best[THEN conjunct2] by simp
  show ?thesis
    by (rule exI[of _ "bestBasis sS + 1"], rule exI[of _ "trace sC"], rule exI[of _ post])
      (intro conjI t quiet post(2) i ii)
qed

lemma main_completes:
  assumes mode: "mode = Uniform \<or> mode = Needle \<or> mode = Gaussian"
    and project: "project_name mode 4 = Some project"
    and logs: "\<forall>n. 1 \<le> n \<and> n \<le> scanned d (pattern_of project) 5 \<longrightarrow>
       2 \<le> length (op_costLog ops (engine_at ops (pattern_of project) d w n)) \<and>
       length (op_costLog ops (engine_at ops (pattern_of project) d w n)) < 2 ^ 64 \<and>
       (\<forall>f\<in>set (op_filterLog ops (engine_at ops (pattern_of project) d w n)). 2 \<le> length f)"
  shows "outcome (main ops mode d w) = Some (Returned 1)"
proof -
  let ?pat = "pattern_of project"
  from main_phases[OF mode project, of ops d w] obtain g where
    m: "main ops mode d w = running (return 1) (basis ops project 16 16
          (charts ops project 5 (survey ops g project 5
            (engine_save (outdir_of project @ ''tmp.snap'') (initial d w 5)))))" ..
  note p = project_cases[OF mode project]
  define sE where "sE = generate_examples ops g (outdir_of project) project
      (engine_save (outdir_of project @ ''tmp.snap'') (initial d w 5))"
  define sS where "sS = scan ops ?pat 5 sE"
  define sC where "sC = charts ops project 5 sS"
  define sB where "sB = basis ops project 16 16 sC"
  note sv = survey_state[OF p sE_def]
  have m': "main ops mode d w = running (return 1) sB"
    unfolding m sv(1) sB_def sC_def sS_def ..
  have dk: "\<forall>n. disk sE (snapshot_file ?pat n) = d (snapshot_file ?pat n)" by (rule sv(10))
  have K: "scanned_from (disk sE) ?pat 1 5 = scanned d ?pat 5"
    unfolding scanned_def by (rule scanned_from_disk[OF dk])
  have E: "engine_from ops ?pat (disk sE) (wavenet sE) 1 n = engine_at ops ?pat d w n" for n
    unfolding engine_at_def sv(8) by (rule engine_from_disk[OF dk])
  have cond: "\<forall>k < scanned_from (disk sE) ?pat (snap sE) 5.
      2 \<le> length (op_costLog ops (engine_from ops ?pat (disk sE) (wavenet sE) (snap sE) (Suc k))) \<and>
      length (op_costLog ops (engine_from ops ?pat (disk sE) (wavenet sE) (snap sE) (Suc k)))
        < 2 ^ 64 \<and>
      (\<forall>f\<in>set (op_filterLog ops
           (engine_from ops ?pat (disk sE) (wavenet sE) (snap sE) (Suc k))). 2 \<le> length f)"
  proof (intro allI impI)
    fix k assume "k < scanned_from (disk sE) ?pat (snap sE) 5"
    then have "1 \<le> Suc k \<and> Suc k \<le> scanned d ?pat 5"
      unfolding sv(3) K by simp
    from logs[rule_format, OF this]
    show "2 \<le> length (op_costLog ops
          (engine_from ops ?pat (disk sE) (wavenet sE) (snap sE) (Suc k))) \<and>
      length (op_costLog ops (engine_from ops ?pat (disk sE) (wavenet sE) (snap sE) (Suc k)))
        < 2 ^ 64 \<and>
      (\<forall>f\<in>set (op_filterLog ops
           (engine_from ops ?pat (disk sE) (wavenet sE) (snap sE) (Suc k))). 2 \<le> length f)"
      unfolding sv(3) E .
  qed
  have oS: "outcome sS = None"
    unfolding sS_def scan_def
  proof (rule scan_loop_completes)
    show "1 \<le> snap sE" by (simp add: sv(3))
    show "length (costGraphs sE) = 5" by (rule sv(6))
    show "length (filterGraphs sE) = 5" by (rule sv(7))
    show "(5::nat) < 2 ^ 64" by simp
    show "outcome sE = None" by (rule sv(2))
    show "\<forall>k < scanned_from (disk sE) ?pat (snap sE) 5.
      2 \<le> length (op_costLog ops (engine_from ops ?pat (disk sE) (wavenet sE) (snap sE) (Suc k))) \<and>
      length (op_costLog ops (engine_from ops ?pat (disk sE) (wavenet sE) (snap sE) (Suc k)))
        < 2 ^ 64 \<and>
      (\<forall>f\<in>set (op_filterLog ops
           (engine_from ops ?pat (disk sE) (wavenet sE) (snap sE) (Suc k))). 2 \<le> length f)"
      by (rule cond)
  qed
  have nr: "outcome sE \<noteq> Some (Returned 0)" by (simp add: sv(2))
  note fr = scan_loop_frame[OF nr, of ops ?pat 5, folded scan_def, folded sS_def]
  have lS: "length (costGraphs sS) = 5" "length (filterGraphs sS) = 5"
    using fr sv(6,7) by simp_all
  have oC: "outcome sC = None"
    using charts_frame[of ops project 5 sS 0, folded sC_def] oS lS by blast
  have oB: "outcome sB = None"
    using basis_trace[OF oC, of ops project 16 16, folded sB_def] by blast
  show ?thesis unfolding m' using oB by (simp add: running_def return_def)
qed

lemma project_Needle: "project_name Needle 4 = Some ''Run.Needle.N4''"
  by (simp add: project_name_def to_string_4)

lemma engine_at_gap_disk:
  "engine_at demo_ops (pattern_of ''Run.Needle.N4'') gap_disk demo_engine 1 =
     ([[1, 0], [0.5, 0.5]], [3, 200000, 0])"
  "engine_at demo_ops (pattern_of ''Run.Needle.N4'') gap_disk demo_engine 2 =
     ([[0, 1]], [2, 100000, 0])"
proof -
  have f: "gap_disk (snapshot_file (pattern_of ''Run.Needle.N4'') 1) =
      Some (Snap ([[1, 0], [0.5, 0.5]], [3, 200000, 0]))"
    "gap_disk (snapshot_file (pattern_of ''Run.Needle.N4'') 2) =
      Some (Snap ([[0, 1]], [2, 100000, 0]))"
    unfolding Needle_files by (simp_all add: gap_disk_def)
  show "engine_at demo_ops (pattern_of ''Run.Needle.N4'') gap_disk demo_engine 1 =
     ([[1, 0], [0.5, 0.5]], [3, 200000, 0])"
    using f(1) by (intro demo_engine_at) simp_all
  show "engine_at demo_ops (pattern_of ''Run.Needle.N4'') gap_disk demo_engine 2 =
     ([[0, 1]], [2, 100000, 0])"
    using f(2) by (intro demo_engine_at) simp_all
qed

lemma engine_at_gap_disk_Suc:
  "engine_at demo_ops (pattern_of ''Run.Needle.N4'') gap_disk demo_engine (Suc 0) =
     ([[1, 0], [0.5, 0.5]], [3, 200000, 0])"
  using engine_at_gap_disk(1) by simp

lemma cost_of_gap_disk:
  "cost_of demo_ops (pattern_of ''Run.Needle.N4'') gap_disk demo_engine 1 = 200000"
  "cost_of demo_ops (pattern_of ''Run.Needle.N4'') gap_disk demo_engine 2 = 100000"
  by (simp_all add: cost_of_def engine_at_gap_disk engine_at_gap_disk_Suc demo_ops_simps
      second_to_last_def)

lemma cost_of_three_snapshots:
  "cost_of demo_ops (pattern_of ''Run.Needle.N4'') three_snapshots demo_engine 1 = 0.4"
  "cost_of demo_ops (pattern_of ''Run.Needle.N4'') three_snapshots demo_engine 2 = 0.3"
  "cost_of demo_ops (pattern_of ''Run.Needle.N4'') three_snapshots demo_engine 3 = 0.1"
  by (simp_all add: cost_of_def engine_at_three_snapshots demo_ops_simps second_to_last_def)

lemma gap_disk_logs:
  "\<forall>n. 1 \<le> n \<and> n \<le> scanned gap_disk (pattern_of ''Run.Needle.N4'') 5 \<longrightarrow>
     2 \<le> length (op_costLog demo_ops
            (engine_at demo_ops (pattern_of ''Run.Needle.N4'') gap_disk demo_engine n)) \<and>
     length (op_costLog demo_ops
            (engine_at demo_ops (pattern_of ''Run.Needle.N4'') gap_disk demo_engine n)) < 2 ^ 64 \<and>
     (\<forall>f\<in>set (op_filterLog demo_ops
          (engine_at demo_ops (pattern_of ''Run.Needle.N4'') gap_disk demo_engine n)).
        2 \<le> length f)"
proof (intro allI impI)
  fix n assume "1 \<le> n \<and> n \<le> scanned gap_disk (pattern_of ''Run.Needle.N4'') 5"
  then have "n = 1 \<or> n = 2" unfolding scanned_gap_disk by arith
  then show "2 \<le> length (op_costLog demo_ops
            (engine_at demo_ops (pattern_of ''Run.Needle.N4'') gap_disk demo_engine n)) \<and>
     length (op_costLog demo_ops
            (engine_at demo_ops (pattern_of ''Run.Needle.N4'') gap_disk demo_engine n)) < 2 ^ 64 \<and>
     (\<forall>f\<in>set (op_filterLog demo_ops
          (engine_at demo_ops (pattern_of ''Run.Needle.N4'') gap_disk demo_engine n)).
        2 \<le> length f)"
    by (elim disjE) (simp_all add: engine_at_gap_disk engine_at_gap_disk_Suc demo_ops_simps)
qed

lemma three_snapshots_logs:
  "\<forall>n. 1 \<le> n \<and> n \<le> scanned three_snapshots (pattern_of ''Run.Needle.N4'') 5 \<longrightarrow>
     2 \<le> length (op_costLog demo_ops
            (engine_at demo_ops (pattern_of ''Run.Needle.N4'') three_snapshots demo_engine n)) \<and>
     length (op_costLog demo_ops
            (engine_at demo_ops (pattern_of ''Run.Needle.N4'') three_snapshots demo_engine n))
       < 2 ^ 64 \<and>
     (\<forall>f\<in>set (op_filterLog demo_ops
          (engine_at demo_ops (pattern_of ''Run.Needle.N4'') three_snapshots demo_engine n)).
        2 \<le> length f)"
proof (intro allI impI)
  fix n assume "1 \<le> n \<and> n \<le> scanned three_snapshots (pattern_of ''Run.Needle.N4'') 5"
  then have "n = 1 \<or> n = 2 \<or> n = 3" unfolding scanned_three_snapshots by arith
  then show "2 \<le> length (op_costLog demo_ops
            (engine_at demo_ops (pattern_of ''Run.Needle.N4'') three_snapshots demo_engine n)) \<and>
     length (op_costLog demo_ops
            (engine_at demo_ops (pattern_of ''Run.Needle.N4'') three_snapshots demo_engine n))
       < 2 ^ 64 \<and>
     (\<forall>f\<in>set (op_filterLog demo_ops
          (engine_at demo_ops (pattern_of ''Run.Needle.N4'') three_snapshots demo_engine n)).
        2 \<le> length f)"
    by (elim disjE) (simp_all add: engine_at_three_snapshots demo_ops_simps)
qed

lemma loads_append: "loads (xs @ ys) = loads xs @ loads ys"
  by (induction xs rule: loads.induct) simp_all

lemma loads_none: "list_all (\<lambda>e. \<not> is_load e) es \<Longrightarrow> loads es = []"
  by (induction es rule: loads.induct) simp_all

lemma last_load_before_audit:
  assumes tr: "tr = pre @ EngineLoad f # post"
    and pre: "list_all (\<lambda>e. \<not> audit_or_movie e) pre"
    and post: "list_all (\<lambda>e. \<not> is_load e) post"
  shows "last (loads (takeWhile (\<lambda>e. \<not> audit_or_movie e) tr)) = f"
    and "last (loads tr) = f"
proof -
  have "list_all (\<lambda>e. \<not> is_load e) (takeWhile (\<lambda>e. \<not> audit_or_movie e) post)"
    using post set_takeWhileD[of _ "\<lambda>e. \<not> audit_or_movie e" post]
    by (auto simp: list_all_iff)
  then have a: "loads (takeWhile (\<lambda>e. \<not> audit_or_movie e) post) = []"
    by (rule loads_none)
  have "takeWhile (\<lambda>e. \<not> audit_or_movie e) tr =
      pre @ EngineLoad f # takeWhile (\<lambda>e. \<not> audit_or_movie e) post"
    unfolding tr using pre by (simp add: takeWhile_append2 list_all_iff)
  then show "last (loads (takeWhile (\<lambda>e. \<not> audit_or_movie e) tr)) = f"
    by (simp add: loads_append a)
  show "last (loads tr) = f"
    unfolding tr by (simp add: loads_append loads_none[OF post])
qed

text \<open>
  Claim C3, as stated, fails. The running minimum starts at 99999, and a snapshot
  becomes the best run only when its second-to-last entry is below the running minimum.
  On a disk whose two scanned snapshots have the second-to-last entries 200000 and
  100000 the run completes, and the last snapshot loaded before the audit begins, which
  is also the last one loaded at all, is snapshot 1, although snapshot 2 has the smaller
  second-to-last entry.
\<close>

theorem threshold_keeps_first_snapshot:
  "outcome (main demo_ops Needle gap_disk demo_engine) = Some (Returned 1) \<and>
   scanned gap_disk (pattern_of ''Run.Needle.N4'') 5 = 2 \<and>
   cost_of demo_ops (pattern_of ''Run.Needle.N4'') gap_disk demo_engine 1 = 200000 \<and>
   cost_of demo_ops (pattern_of ''Run.Needle.N4'') gap_disk demo_engine 2 = 100000 \<and>
   last (loads (takeWhile (\<lambda>e. \<not> audit_or_movie e)
      (trace (main demo_ops Needle gap_disk demo_engine)))) =
     ''./output/Run.Needle.N4/snapshots/Run.Needle.N4.000001.snap'' \<and>
   last (loads (trace (main demo_ops Needle gap_disk demo_engine))) =
     ''./output/Run.Needle.N4/snapshots/Run.Needle.N4.000001.snap''"
proof -
  let ?pat = "pattern_of ''Run.Needle.N4''"
  have mode: "Needle = Uniform \<or> Needle = Needle \<or> Needle = Gaussian" by simp
  have fin: "outcome (main demo_ops Needle gap_disk demo_engine) = Some (Returned 1)"
    by (rule main_completes[OF mode project_Needle gap_disk_logs])
  have lens: "\<forall>n. 1 \<le> n \<and> n \<le> scanned gap_disk ?pat 5 \<longrightarrow>
      length (op_costLog demo_ops (engine_at demo_ops ?pat gap_disk demo_engine n)) < 2 ^ 64"
    using gap_disk_logs by blast
  from main_best_aux[OF mode project_Needle fin lens] obtain b pre post where
    tr: "trace (main demo_ops Needle gap_disk demo_engine) =
           pre @ EngineLoad (snapshot_file ?pat b) # post"
    and pre: "list_all (\<lambda>e. \<not> audit_or_movie e) pre"
    and post: "list_all (\<lambda>e. \<not> is_load e) post"
    and none: "(\<forall>n. 1 \<le> n \<and> n \<le> scanned gap_disk ?pat 5 \<longrightarrow>
         99999 \<le> cost_of demo_ops ?pat gap_disk demo_engine n) \<longrightarrow> b = 1"
    by blast
  have "\<forall>n. 1 \<le> n \<and> n \<le> scanned gap_disk ?pat 5 \<longrightarrow>
         99999 \<le> cost_of demo_ops ?pat gap_disk demo_engine n"
  proof (intro allI impI)
    fix n assume "1 \<le> n \<and> n \<le> scanned gap_disk ?pat 5"
    then have "n = 1 \<or> n = 2" unfolding scanned_gap_disk by arith
    then show "99999 \<le> cost_of demo_ops ?pat gap_disk demo_engine n"
      using cost_of_gap_disk by auto
  qed
  with none have b: "b = 1" by (rule mp)
  note ll = last_load_before_audit[OF tr[unfolded b Needle_files] pre post]
  show ?thesis
    by (intro conjI fin scanned_gap_disk cost_of_gap_disk ll)
qed

text \<open>
  Claim C3, amended. Take a run that goes to completion, and suppose that some scanned
  snapshot has a second-to-last cost-log entry below 99999, the value at which the
  running minimum starts. Then the best run is the first scanned snapshot whose
  second-to-last entry is minimal among all scanned snapshots (the final entry of a cost
  log plays no part), and exactly that snapshot is re-loaded into the engine before the
  audit and the rendering begin: the trace splits at that load into a part with no event
  of the audit or of the movie and a part with no further load.
\<close>

theorem best_snapshot_reloaded:
  assumes "mode = Uniform \<or> mode = Needle \<or> mode = Gaussian"
    and "project_name mode 4 = Some project"
    and "outcome (main ops mode d w) = Some (Returned 1)"
    and "\<forall>n. 1 \<le> n \<and> n \<le> scanned d (pattern_of project) 5 \<longrightarrow>
       length (op_costLog ops (engine_at ops (pattern_of project) d w n)) < 2 ^ 64"
    and "\<exists>n. 1 \<le> n \<and> n \<le> scanned d (pattern_of project) 5 \<and>
       cost_of ops (pattern_of project) d w n < 99999"
  shows "\<exists>b pre post.
     trace (main ops mode d w) =
       pre @ EngineLoad (snapshot_file (pattern_of project) b) # post \<and>
     list_all (\<lambda>e. \<not> audit_or_movie e) pre \<and>
     list_all (\<lambda>e. \<not> is_load e) post \<and>
     1 \<le> b \<and> b \<le> scanned d (pattern_of project) 5 \<and>
     (\<forall>n. 1 \<le> n \<and> n \<le> scanned d (pattern_of project) 5 \<longrightarrow>
        cost_of ops (pattern_of project) d w b \<le> cost_of ops (pattern_of project) d w n) \<and>
     (\<forall>n. 1 \<le> n \<and> n < b \<longrightarrow>
        cost_of ops (pattern_of project) d w b < cost_of ops (pattern_of project) d w n)"
proof -
  from main_best_aux[OF assms(1-4)] obtain b pre post where
    tr: "trace (main ops mode d w) =
           pre @ EngineLoad (snapshot_file (pattern_of project) b) # post"
    and pre: "list_all (\<lambda>e. \<not> audit_or_movie e) pre"
    and post: "list_all (\<lambda>e. \<not> is_load e) post"
    and some: "(\<exists>n. 1 \<le> n \<and> n \<le> scanned d (pattern_of project) 5 \<and>
         cost_of ops (pattern_of project) d w n < 99999) \<longrightarrow>
       1 \<le> b \<and> b \<le> scanned d (pattern_of project) 5 \<and>
       (\<forall>n. 1 \<le> n \<and> n \<le> scanned d (pattern_of project) 5 \<longrightarrow>
          cost_of ops (pattern_of project) d w b \<le> cost_of ops (pattern_of project) d w n) \<and>
       (\<forall>n. 1 \<le> n \<and> n < b \<longrightarrow>
          cost_of ops (pattern_of project) d w b < cost_of ops (pattern_of project) d w n)"
    by blast
  note best = some[rule_format, OF assms(5)]
  show ?thesis
    by (intro exI[of _ b] exI[of _ pre] exI[of _ post] conjI tr pre post
        best[THEN conjunct1] best[THEN conjunct2, THEN conjunct1]
        best[THEN conjunct2, THEN conjunct2, THEN conjunct1]
        best[THEN conjunct2, THEN conjunct2, THEN conjunct2])
qed

theorem best_snapshot_reloaded_witness:
  "project_name Needle 4 = Some ''Run.Needle.N4'' \<and>
   outcome (main demo_ops Needle three_snapshots demo_engine) = Some (Returned 1) \<and>
   scanned three_snapshots (pattern_of ''Run.Needle.N4'') 5 = 3 \<and>
   cost_of demo_ops (pattern_of ''Run.Needle.N4'') three_snapshots demo_engine 1 = 0.4 \<and>
   cost_of demo_ops (pattern_of ''Run.Needle.N4'') three_snapshots demo_engine 2 = 0.3 \<and>
   cost_of demo_ops (pattern_of ''Run.Needle.N4'') three_snapshots demo_engine 3 = 0.1 \<and>
   (\<exists>pre post.
      trace (main demo_ops Needle three_snapshots demo_engine) =
        pre @ EngineLoad ''./output/Run.Needle.N4/snapshots/Run.Needle.N4.000003.snap'' # post \<and>
      list_all (\<lambda>e. \<not> audit_or_movie e) pre \<and>
      list_all (\<lambda>e. \<not> is_load e) post)"
proof -
  let ?pat = "pattern_of ''Run.Needle.N4''"
  let ?c = "cost_of demo_ops ?pat three_snapshots demo_engine"
  have mode: "Needle = Uniform \<or> Needle = Needle \<or> Needle = Gaussian" by simp
  have fin: "outcome (main demo_ops Needle three_snapshots demo_engine) = Some (Returned 1)"
    by (rule main_completes[OF mode project_Needle three_snapshots_logs])
  have lens: "\<forall>n. 1 \<le> n \<and> n \<le> scanned three_snapshots ?pat 5 \<longrightarrow>
      length (op_costLog demo_ops (engine_at demo_ops ?pat three_snapshots demo_engine n))
        < 2 ^ 64"
    using three_snapshots_logs by blast
  have some: "\<exists>n. 1 \<le> n \<and> n \<le> scanned three_snapshots ?pat 5 \<and> ?c n < 99999"
    by (rule exI[of _ 3]) (simp add: scanned_three_snapshots cost_of_three_snapshots)
  from best_snapshot_reloaded[OF mode project_Needle fin lens some]
  obtain b pre post where
    tr: "trace (main demo_ops Needle three_snapshots demo_engine) =
           pre @ EngineLoad (snapshot_file ?pat b) # post"
    and pre: "list_all (\<lambda>e. \<not> audit_or_movie e) pre"
    and post: "list_all (\<lambda>e. \<not> is_load e) post"
    and b: "1 \<le> b" "b \<le> scanned three_snapshots ?pat 5"
    and least: "\<forall>n. 1 \<le> n \<and> n \<le> scanned three_snapshots ?pat 5 \<longrightarrow> ?c b \<le> ?c n"
    by blast
  from b have cases: "b = 1 \<or> b = 2 \<or> b = 3" unfolding scanned_three_snapshots by arith
  have "?c b \<le> ?c 3"
    by (rule least[rule_format]) (simp add: scanned_three_snapshots)
  with cases have "b = 3"
    using cost_of_three_snapshots by auto
  note tr3 = tr[unfolded \<open>b = 3\<close> Needle_files]
  have ex: "\<exists>pre post.
      trace (main demo_ops Needle three_snapshots demo_engine) =
        pre @ EngineLoad ''./output/Run.Needle.N4/snapshots/Run.Needle.N4.000003.snap'' # post \<and>
      list_all (\<lambda>e. \<not> audit_or_movie e) pre \<and>
      list_all (\<lambda>e. \<not> is_load e) post"
    by (intro exI[of _ pre] exI[of _ post] conjI tr3 pre post)
  show ?thesis
    by (intro conjI project_Needle fin scanned_three_snapshots cost_of_three_snapshots ex)
qed

end
